theory Spec2Isabelle
  imports Main "HOL-Library.Sublist"
begin

section \<open>Python strings\<close>

text \<open>
  A Python \<open>str\<close> is a sequence of Unicode code points, so a string is a list of
  code points (natural numbers); \<open>ascii ''abc''\<close> writes an ASCII literal.
  The smart quotes folded by \<open>clean_text\<close> are U+201C, U+201D, U+2018 and U+2019.
\<close>

type_synonym codepoint = nat
type_synonym str = "codepoint list"

abbreviation ascii :: "string \<Rightarrow> str" where
  "ascii s \<equiv> map of_char s"

definition dquote :: codepoint where "dquote = 34"
definition squote :: codepoint where "squote = 39"
definition newline :: codepoint where "newline = 10"

text \<open>
  \<open>str.isspace\<close>, which also decides what \<open>str.strip()\<close>, \<open>str.split()\<close> and the
  regular expression class \<open>\s\<close> take for whitespace.
\<close>

definition isspace :: "codepoint \<Rightarrow> bool" where
  "isspace c \<longleftrightarrow>
     (9 \<le> c \<and> c \<le> 13) \<or> (28 \<le> c \<and> c \<le> 32) \<or> c = 133 \<or> c = 160 \<or> c = 5760 \<or>
     (8192 \<le> c \<and> c \<le> 8202) \<or> c = 8232 \<or> c = 8233 \<or> c = 8239 \<or> c = 8287 \<or> c = 12288"

text \<open>
  The class \<open>\d\<close> of a \<open>str\<close> pattern: the decimal digits of Unicode (category Nd,
  Unicode 14): 61 runs of ten code points and one run of fifty.
\<close>

definition digit_runs :: "codepoint list" where
  "digit_runs =
     [48, 1632, 1776, 1984, 2406, 2534, 2662, 2790, 2918, 3046, 3174, 3302, 3430, 3558,
      3664, 3792, 3872, 4160, 4240, 6112, 6160, 6470, 6608, 6784, 6800, 6992, 7088, 7232,
      7248, 42528, 43216, 43264, 43472, 43504, 43600, 44016, 65296, 66720, 68912, 69734,
      69872, 69942, 70096, 70384, 70736, 70864, 71248, 71360, 71472, 71904, 72016, 72784,
      73040, 73120, 92768, 92864, 93008, 123200, 123632, 125264, 130032]"

definition isdigit :: "codepoint \<Rightarrow> bool" where
  "isdigit c \<longleftrightarrow>
     list_ex (\<lambda>a. a \<le> c \<and> c < a + 10) digit_runs \<or> (120782 \<le> c \<and> c < 120832)"

definition py_strip :: "str \<Rightarrow> str" where
  \<comment> \<open>\<open>s.strip()\<close>\<close>
  "py_strip s = rev (dropWhile isspace (rev (dropWhile isspace s)))"

definition py_strip_char :: "codepoint \<Rightarrow> str \<Rightarrow> str" where
  \<comment> \<open>\<open>s.strip(q)\<close> for a one-character \<open>q\<close>: every leading and trailing \<open>q\<close> goes\<close>
  "py_strip_char q s = rev (dropWhile (\<lambda>c. c = q) (rev (dropWhile (\<lambda>c. c = q) s)))"

definition py_replace_char :: "codepoint \<Rightarrow> codepoint \<Rightarrow> str \<Rightarrow> str" where
  \<comment> \<open>\<open>s.replace(a, b)\<close> for one-character \<open>a\<close> and \<open>b\<close>\<close>
  "py_replace_char a b s = map (\<lambda>c. if c = a then b else c) s"

fun py_split_from :: "str \<Rightarrow> str \<Rightarrow> str list" where
  \<comment> \<open>\<open>s.split()\<close>: the maximal runs of non-whitespace; the first argument is the run being read\<close>
  "py_split_from w [] = (if w = [] then [] else [w])"
| "py_split_from w (c # cs) =
     (if isspace c then (if w = [] then py_split_from [] cs else w # py_split_from [] cs)
      else py_split_from (w @ [c]) cs)"

definition py_split :: "str \<Rightarrow> str list" where
  "py_split s = py_split_from [] s"

fun py_join :: "str \<Rightarrow> str list \<Rightarrow> str" where
  \<comment> \<open>\<open>sep.join(xs)\<close>\<close>
  "py_join sep [] = []"
| "py_join sep [x] = x"
| "py_join sep (x # y # ys) = x @ sep @ py_join sep (y # ys)"

fun startswith :: "str \<Rightarrow> str \<Rightarrow> bool" where
  \<comment> \<open>\<open>s.startswith(p)\<close>, the prefix first\<close>
  "startswith [] s = True"
| "startswith (p # ps) [] = False"
| "startswith (p # ps) (c # cs) = (p = c \<and> startswith ps cs)"

section \<open>clean\_text\<close>

definition fold_smart_quotes :: "str \<Rightarrow> str" where
  \<comment> \<open>lines 42 and 43\<close>
  "fold_smart_quotes text =
     py_replace_char 8217 squote (py_replace_char 8216 squote
       (py_replace_char 8221 dquote (py_replace_char 8220 dquote text)))"

definition clean_text :: "str \<Rightarrow> str" where
  "clean_text text =
     (if text = [] then []
      else
        let text = fold_smart_quotes text;
            text = py_strip (py_strip_char squote (py_strip_char dquote (py_strip text)));
            text = py_join (ascii '' '') (py_split text)
        in text)"

section \<open>The two regular expressions of the parser\<close>

text \<open>
  \<open>re.search(r'Document \(\d+\):\s*["\']?(.+?)["\']?$', s)\<close> and
  \<open>re.match(r'Null\s*\((.+?)\)', s, re.IGNORECASE)\<close>, each written out as the search the
  backtracking matcher performs, returning group 1 of the first match found.
  \<open>.\<close> is any code point but the newline, and \<open>$\<close> holds at the end of the string
  and before a final newline.
\<close>

definition is_quote :: "codepoint \<Rightarrow> bool" where
  "is_quote c \<longleftrightarrow> c = dquote \<or> c = squote"

definition at_end :: "str \<Rightarrow> bool" where
  \<comment> \<open>\<open>$\<close>\<close>
  "at_end u \<longleftrightarrow> u = [] \<or> u = [newline]"

definition quote_then_end :: "str \<Rightarrow> bool" where
  \<comment> \<open>\<open>["\']?$\<close>: the quote is tried first, then nothing\<close>
  "quote_then_end u \<longleftrightarrow> (case u of [] \<Rightarrow> False | q # v \<Rightarrow> is_quote q \<and> at_end v) \<or> at_end u"

fun lazy_group :: "str \<Rightarrow> str \<Rightarrow> str option" where
  \<comment> \<open>\<open>(.+?)["\']?$\<close>: the shortest non-empty group after which the rest matches;
      the first argument is the group read so far\<close>
  "lazy_group g [] = None"
| "lazy_group g (c # u) =
     (if c = newline then None
      else if quote_then_end u then Some (g @ [c])
      else lazy_group (g @ [c]) u)"

definition quoted_group :: "str \<Rightarrow> str option" where
  \<comment> \<open>\<open>["\']?(.+?)["\']?$\<close>: the opening quote is taken first, and given back if that fails\<close>
  "quoted_group t =
     (case t of
        [] \<Rightarrow> None
      | q # v \<Rightarrow>
          if is_quote q then (case lazy_group [] v of Some g \<Rightarrow> Some g | None \<Rightarrow> lazy_group [] t)
          else lazy_group [] t)"

fun spaces_then_group :: "nat \<Rightarrow> str \<Rightarrow> str option" where
  \<comment> \<open>\<open>\s*\<close> having \<open>k\<close> code points to take: the longest run first, then one less\<close>
  "spaces_then_group 0 r = quoted_group r"
| "spaces_then_group (Suc k) r =
     (case quoted_group (drop (Suc k) r) of
        Some g \<Rightarrow> Some g
      | None \<Rightarrow> spaces_then_group k r)"

definition marker_match_here :: "str \<Rightarrow> str option" where
  \<comment> \<open>the pattern matched at the start of \<open>t\<close>; \<open>\d+\<close> takes every digit, since the
      closing parenthesis that must follow is not a digit\<close>
  "marker_match_here t =
     (if startswith (ascii ''Document ('') t then
        let u = drop 10 t;
            ds = takeWhile isdigit u;
            v = drop (length ds) u
        in if ds \<noteq> [] \<and> startswith (ascii ''):'') v
           then spaces_then_group (length (takeWhile isspace (drop 2 v))) (drop 2 v)
           else None
      else None)"

fun marker_search :: "str \<Rightarrow> str option" where
  \<comment> \<open>\<open>re.search\<close>: the leftmost position at which the pattern matches\<close>
  "marker_search [] = None"
| "marker_search (c # cs) =
     (case marker_match_here (c # cs) of
        Some g \<Rightarrow> Some g
      | None \<Rightarrow> marker_search cs)"

fun lazy_paren :: "str \<Rightarrow> str \<Rightarrow> str option" where
  \<comment> \<open>\<open>(.+?)\)\<close>: the shortest non-empty group followed by a closing parenthesis\<close>
  "lazy_paren g [] = None"
| "lazy_paren g (c # u) =
     (if c = newline then None
      else if startswith (ascii '')'') u then Some (g @ [c])
      else lazy_paren (g @ [c]) u)"

definition null_match :: "str \<Rightarrow> str option" where
  \<comment> \<open>\<open>re.match\<close> with \<open>re.IGNORECASE\<close>: anchored at the start only; no other code
      point folds to n, u or l\<close>
  "null_match v =
     (case v of
        a # b # c # d # r \<Rightarrow>
          if (a = 78 \<or> a = 110) \<and> (b = 85 \<or> b = 117) \<and> (c = 76 \<or> c = 108) \<and> (d = 76 \<or> d = 108)
          then (case dropWhile isspace r of
                  [] \<Rightarrow> None
                | p # t \<Rightarrow> if p = 40 then lazy_paren [] t else None)
          else None
      | _ \<Rightarrow> None)"

definition upper_eq_NO :: "str \<Rightarrow> bool" where
  \<comment> \<open>\<open>value.upper() == "NO"\<close>: only n, N upper-case to N and only o, O to O\<close>
  "upper_eq_NO v \<longleftrightarrow> (case v of [a, b] \<Rightarrow> (a = 78 \<or> a = 110) \<and> (b = 79 \<or> b = 111) | _ \<Rightarrow> False)"

definition lower_eq_null :: "str \<Rightarrow> bool" where
  \<comment> \<open>\<open>value.lower() == 'null'\<close>\<close>
  "lower_eq_null v \<longleftrightarrow>
     (case v of
        [a, b, c, d] \<Rightarrow> (a = 78 \<or> a = 110) \<and> (b = 85 \<or> b = 117) \<and> (c = 76 \<or> c = 108) \<and> (d = 76 \<or> d = 108)
      | _ \<Rightarrow> False)"

section \<open>parse\_hierarchical\_csv\<close>

text \<open>
  The dictionary built for a document, with the source's keys: \<open>doc\<close> is the dictionary
  of the parser, \<open>flat_doc\<close> the one the validator decodes, which has no \<open>'raw_rows'\<close>.
  A \<open>section_key\<close> is one of the keys \<open>'diagnostico'\<close>, \<open>'cie10'\<close>, \<open>'destino_alta'\<close>,
  \<open>'medicamentos'\<close> and \<open>'consultas'\<close> that \<open>current_section\<close> holds when it is not \<open>None\<close>.
\<close>

datatype section_key = Diagnostico | Cie10 | Destino_alta | Medicamentos | Consultas

record flat_doc =
  document_id :: str
  diagnostico :: "str list"
  cie10 :: "str list"
  destino_alta :: str
  medicamentos :: "str list"
  consultas :: "str list"

record doc = flat_doc +
  raw_rows :: "(nat \<times> section_key \<times> str) list"

definition new_doc :: "str \<Rightarrow> doc" where
  "new_doc filename =
     \<lparr>document_id = filename, diagnostico = [], cie10 = [], destino_alta = [],
      medicamentos = [], consultas = [], raw_rows = []\<rparr>"

text \<open>
  The dictionaries are objects: \<open>documents.append(current_doc)\<close> stores a reference, and a
  dictionary appended while it stays the current one is changed by later rows where it
  sits in the list. So the state keeps the dictionaries in a store (\<open>heap\<close>, the address
  of a dictionary being its position), and \<open>documents\<close> and \<open>current_doc\<close> hold addresses.
\<close>

record pstate =
  heap :: "doc list"
  documents :: "nat list"
  current_doc :: "nat option"
  current_section :: "section_key option"

definition init_state :: pstate where
  "init_state = \<lparr>heap = [], documents = [], current_doc = None, current_section = None\<rparr>"

definition add_value :: "section_key \<Rightarrow> str \<Rightarrow> doc \<Rightarrow> doc" where
  \<comment> \<open>lines 131 to 135: the scalar is overwritten, a list takes a value it does not hold\<close>
  "add_value sec v d =
     (case sec of
        Destino_alta \<Rightarrow> d\<lparr>destino_alta := v\<rparr>
      | Diagnostico \<Rightarrow> if v \<in> set (diagnostico d) then d else d\<lparr>diagnostico := diagnostico d @ [v]\<rparr>
      | Cie10 \<Rightarrow> if v \<in> set (cie10 d) then d else d\<lparr>cie10 := cie10 d @ [v]\<rparr>
      | Medicamentos \<Rightarrow> if v \<in> set (medicamentos d) then d else d\<lparr>medicamentos := medicamentos d @ [v]\<rparr>
      | Consultas \<Rightarrow> if v \<in> set (consultas d) then d else d\<lparr>consultas := consultas d @ [v]\<rparr>)"

definition data_value :: "str \<Rightarrow> str option" where
  \<comment> \<open>lines 115 to 128: the value a data row contributes, \<open>None\<close> where the row is skipped\<close>
  "data_value first_col =
     (let v = clean_text first_col
      in if upper_eq_NO v then None
         else
           let v = (case null_match v of Some inner \<Rightarrow> clean_text inner | None \<Rightarrow> v)
           in if v = [] \<or> lower_eq_null v then None else Some v)"

definition data_row :: "nat \<Rightarrow> str \<Rightarrow> nat \<Rightarrow> section_key \<Rightarrow> pstate \<Rightarrow> pstate" where
  \<comment> \<open>lines 114 to 142, for the current dictionary at address \<open>a\<close> and the section \<open>sec\<close>\<close>
  "data_row row_num first_col a sec s =
     (case data_value first_col of
        None \<Rightarrow> s
      | Some v \<Rightarrow>
          let d = add_value sec v (heap s ! a);
              d = d\<lparr>raw_rows := raw_rows d @ [(row_num, sec, v)]\<rparr>
          in s\<lparr>heap := (heap s)[a := d]\<rparr>)"

definition marker_row :: "str \<Rightarrow> pstate \<Rightarrow> pstate" where
  \<comment> \<open>lines 77 to 94\<close>
  "marker_row first_col_cleaned s =
     (let s = (case current_doc s of
                 Some a \<Rightarrow> s\<lparr>documents := documents s @ [a]\<rparr>
               | None \<Rightarrow> s)
      in case marker_search first_col_cleaned of
           Some g \<Rightarrow>
             s\<lparr>heap := heap s @ [new_doc (clean_text g)],
               current_doc := Some (length (heap s)),
               current_section := None\<rparr>
         | None \<Rightarrow> s)"

definition section_header :: "str \<Rightarrow> section_key option" where
  \<comment> \<open>the chain of tests of lines 97 to 111 on the stripped first cell; 243 is the o with
      acute accent of the first header\<close>
  "section_header first_col =
     (if first_col = ascii ''Diagn'' @ [243] @ ascii ''stico:'' then Some Diagnostico
      else if first_col = ascii ''CIE-10:'' then Some Cie10
      else if first_col = ascii ''Destino al alta:'' then Some Destino_alta
      else if first_col = ascii ''Medicamentos:'' then Some Medicamentos
      else if startswith (ascii ''Consultas'') first_col then Some Consultas
      else None)"

definition process_row :: "nat \<Rightarrow> str list \<Rightarrow> pstate \<Rightarrow> pstate" where
  \<comment> \<open>the body of the loop over the rows, lines 67 to 142\<close>
  "process_row row_num row s =
     (case row of
        [] \<Rightarrow> s
      | cell # _ \<Rightarrow>
          if \<not> list_ex (\<lambda>c. c \<noteq> []) row then s
          else
            let first_col = py_strip cell;
                first_col_cleaned = clean_text first_col
            in if startswith (ascii ''Document ('') first_col_cleaned then marker_row first_col_cleaned s
               else (case section_header first_col of
                       Some sec \<Rightarrow> s\<lparr>current_section := Some sec\<rparr>
                     | None \<Rightarrow>
                         (case (current_doc s, current_section s) of
                            (Some a, Some sec) \<Rightarrow> data_row row_num first_col a sec s
                          | _ \<Rightarrow> s)))"

fun parse_rows :: "nat \<Rightarrow> str list list \<Rightarrow> pstate \<Rightarrow> pstate" where
  \<comment> \<open>\<open>for row_num, row in enumerate(reader, 1)\<close>\<close>
  "parse_rows row_num [] s = s"
| "parse_rows row_num (row # rows) s = parse_rows (Suc row_num) rows (process_row row_num row s)"

definition finish :: "pstate \<Rightarrow> pstate" where
  \<comment> \<open>lines 145 and 146\<close>
  "finish s = (case current_doc s of Some a \<Rightarrow> s\<lparr>documents := documents s @ [a]\<rparr> | None \<Rightarrow> s)"

definition parse_state :: "str list list \<Rightarrow> pstate" where
  "parse_state rows = finish (parse_rows 1 rows init_state)"

definition parse_hierarchical_csv :: "str list list \<Rightarrow> doc list" where
  \<comment> \<open>the rows are those \<open>csv.reader\<close> yields for the input file; the result is the list
      \<open>documents\<close>, each address read in the final store\<close>
  "parse_hierarchical_csv rows = (let s = parse_state rows in map (\<lambda>a. heap s ! a) (documents s))"

text \<open>
  What is printed. Every \<open>print\<close> call of the three steps and of \<open>main\<close> is an event,
  named after its call site and carrying the values its message interpolates; the loop over
  the rows prints nothing.
\<close>

datatype issue =
    Document_ID str str
  | FALTA section_key "str set"
  | EXTRA section_key "str set"
  | Conteo section_key nat nat
  | Destino str str

datatype event =
    Paso1 | Parseados nat | Resumen str nat nat str nat nat
  | Paso2 | Convertidos nat | Total_filas nat nat | Tamano nat
  | Paso3 | Conteo_no_coincide nat nat | Conteo_OK nat
  | Documento_error nat str | Issue issue | Documento_OK nat str | Blank
  | Validacion_exitosa | Validacion_fallida nat
  | Titulo | Archivo_no_encontrado | Rutas | No_se_pudieron_parsear
  | Bloqueado | Comparacion "doc list" str
  | Paso4 | CSV_guardado | JSON_guardado | LATEST_creado | Resumen_final nat str

definition parse_printed :: "str list list \<Rightarrow> event list" where
  \<comment> \<open>lines 57 and 148 to 157\<close>
  "parse_printed rows =
     (let docs = parse_hierarchical_csv rows
      in [Paso1, Parseados (length docs)] @
         map (\<lambda>d. Resumen (document_id d) (length (diagnostico d)) (length (cie10 d))
                      (destino_alta d) (length (medicamentos d)) (length (consultas d)))
             docs)"

text \<open>
  The rows of the input by what the loop does with them, in the order of its tests:
  a row whose cells are all empty is skipped; a row whose cleaned first cell starts with
  \<open>Document (\<close> is a document marker, and its extraction is what the search returns.
\<close>

definition marker_cell :: "str list \<Rightarrow> str option" where
  "marker_cell row =
     (case row of
        [] \<Rightarrow> None
      | cell # _ \<Rightarrow>
          if \<not> list_ex (\<lambda>c. c \<noteq> []) row then None
          else
            let first_col_cleaned = clean_text (py_strip cell)
            in if startswith (ascii ''Document ('') first_col_cleaned then Some first_col_cleaned
               else None)"

definition extraction :: "str list \<Rightarrow> str option" where
  "extraction row = (case marker_cell row of None \<Rightarrow> None | Some c \<Rightarrow> marker_search c)"

definition is_marker :: "str list \<Rightarrow> bool" where
  "is_marker row \<longleftrightarrow> marker_cell row \<noteq> None"

definition marker_failed :: "str list \<Rightarrow> bool" where
  "marker_failed row \<longleftrightarrow> is_marker row \<and> extraction row = None"

definition marker_extracted :: "str list \<Rightarrow> bool" where
  "marker_extracted row \<longleftrightarrow> extraction row \<noteq> None"

section \<open>convert\_to\_flat\_csv\<close>

definition hexdigit :: "nat \<Rightarrow> codepoint" where
  "hexdigit n = (if n < 10 then 48 + n else 87 + n)"

definition json_escape :: "codepoint \<Rightarrow> str" where
  \<comment> \<open>\<open>json.dumps(..., ensure_ascii=False)\<close> escapes the quote, the backslash and the
      code points below U+0020, and nothing else; 92 is the backslash\<close>
  "json_escape c =
     (if c = 34 then [92, 34]
      else if c = 92 then [92, 92]
      else if c = 10 then [92, 110]
      else if c = 13 then [92, 114]
      else if c = 9 then [92, 116]
      else if c = 8 then [92, 98]
      else if c = 12 then [92, 102]
      else if c < 32 then [92, 117, 48, 48, hexdigit (c div 16), hexdigit (c mod 16)]
      else [c])"

definition json_string :: "str \<Rightarrow> str" where
  "json_string s = [dquote] @ concat (map json_escape s) @ [dquote]"

definition json_dumps :: "str list \<Rightarrow> str" where
  \<comment> \<open>a list of strings: the items separated by a comma and a space\<close>
  "json_dumps xs = ascii ''['' @ py_join (ascii '', '') (map json_string xs) @ ascii '']''"

definition csv_quote :: "str \<Rightarrow> str" where
  \<comment> \<open>line 189: \<open>f'"{str(v).replace(chr(34), chr(34)+chr(34))}"'\<close>\<close>
  "csv_quote v = [dquote] @ concat (map (\<lambda>c. if c = dquote then [dquote, dquote] else [c]) v) @ [dquote]"

definition row_values :: "str \<Rightarrow> doc \<Rightarrow> str list" where
  \<comment> \<open>lines 177 to 185: the values of \<open>row\<close>, in the order of its keys\<close>
  "row_values version d =
     [document_id d, json_dumps (diagnostico d), json_dumps (cie10 d), destino_alta d,
      json_dumps (medicamentos d), json_dumps (consultas d), version]"

definition csv_row :: "str \<Rightarrow> doc \<Rightarrow> str" where
  "csv_row version d = py_join (ascii '','') (map csv_quote (row_values version d))"

definition header :: str where
  "header = ascii ''document_id,diagnostico,cie10,destino_alta,medicamentos,consultas,version'' @ [newline]"

definition output_lines :: "str \<Rightarrow> doc list \<Rightarrow> str list" where
  \<comment> \<open>the list \<open>output\<close> after the loop\<close>
  "output_lines version docs = header # map (\<lambda>d. csv_row version d @ [newline]) docs"

definition convert_to_flat_csv :: "str \<Rightarrow> doc list \<Rightarrow> str" where
  \<comment> \<open>\<open>version\<close> is \<open>datetime.now().strftime("%Y.%m.%d")\<close>, read once per call\<close>
  "convert_to_flat_csv version docs = concat (output_lines version docs)"

definition convert_printed :: "str \<Rightarrow> doc list \<Rightarrow> event list" where
  "convert_printed version docs =
     [Paso2, Convertidos (length docs),
      Total_filas (length (output_lines version docs)) (length docs),
      Tamano (length (convert_to_flat_csv version docs))]"

section \<open>validate\_conversion: decoding the artifact\<close>

datatype py_error = KeyError | AttributeError | JSONDecodeError | CsvError | Unmodelled

definition bind_err :: "'e + 'a \<Rightarrow> ('a \<Rightarrow> 'e + 'b) \<Rightarrow> 'e + 'b" where
  "bind_err m f = (case m of Inl e \<Rightarrow> Inl e | Inr x \<Rightarrow> f x)"

fun split_on :: "codepoint \<Rightarrow> str \<Rightarrow> str \<Rightarrow> str list" where
  \<comment> \<open>\<open>s.split(sep)\<close> for a one-character separator; the second argument is the piece being read\<close>
  "split_on sep w [] = [w]"
| "split_on sep w (c # cs) = (if c = sep then w # split_on sep [] cs else split_on sep (w @ [c]) cs)"

fun replace_doubled :: "str \<Rightarrow> str" where
  \<comment> \<open>\<open>s.replace('""', '"')\<close>: from the left, without overlap\<close>
  "replace_doubled [] = []"
| "replace_doubled [c] = [c]"
| "replace_doubled (c # d # r) =
     (if c = dquote \<and> d = dquote then dquote # replace_doubled r else c # replace_doubled (d # r))"

text \<open>
  \<open>csv.reader\<close> in its default dialect (\<open>excel\<close>: comma, double quote, doubled quotes,
  no escape character, not strict), as the state machine of the \<open>_csv\<close> module; a code
  point is \<open>Some c\<close> and the end of a line \<open>None\<close>. A field longer than the field size
  limit raises \<open>csv.Error\<close>, and so does a character after a carriage return or line feed
  outside quotes.
\<close>

datatype csv_state = START_RECORD | START_FIELD | IN_FIELD | IN_QUOTED_FIELD | QUOTE_IN_QUOTED_FIELD | EAT_CRNL

record reader =
  rstate :: csv_state
  rfields :: "str list"
  rfield :: str

definition fresh_reader :: reader where
  "fresh_reader = \<lparr>rstate = START_RECORD, rfields = [], rfield = []\<rparr>"

definition field_limit :: nat where
  "field_limit = 131072"

definition add_char :: "codepoint \<Rightarrow> csv_state \<Rightarrow> reader \<Rightarrow> py_error + reader" where
  "add_char c st r =
     (if field_limit \<le> length (rfield r) then Inl CsvError
      else Inr (r\<lparr>rfield := rfield r @ [c], rstate := st\<rparr>))"

definition save_field :: "csv_state \<Rightarrow> reader \<Rightarrow> py_error + reader" where
  "save_field st r = Inr (r\<lparr>rfields := rfields r @ [rfield r], rfield := [], rstate := st\<rparr>)"

definition is_crnl :: "codepoint \<Rightarrow> bool" where
  "is_crnl c \<longleftrightarrow> c = 10 \<or> c = 13"

definition comma :: codepoint where "comma = 44"

definition start_field :: "codepoint option \<Rightarrow> reader \<Rightarrow> py_error + reader" where
  "start_field c r =
     (case c of
        None \<Rightarrow> save_field START_RECORD r
      | Some x \<Rightarrow>
          if is_crnl x then save_field EAT_CRNL r
          else if x = dquote then Inr (r\<lparr>rstate := IN_QUOTED_FIELD\<rparr>)
          else if x = comma then save_field START_FIELD r
          else add_char x IN_FIELD r)"

definition process_char :: "codepoint option \<Rightarrow> reader \<Rightarrow> py_error + reader" where
  "process_char c r =
     (case rstate r of
        START_RECORD \<Rightarrow>
          (case c of
             None \<Rightarrow> Inr r
           | Some x \<Rightarrow> if is_crnl x then Inr (r\<lparr>rstate := EAT_CRNL\<rparr>) else start_field c r)
      | START_FIELD \<Rightarrow> start_field c r
      | IN_FIELD \<Rightarrow>
          (case c of
             None \<Rightarrow> save_field START_RECORD r
           | Some x \<Rightarrow>
               if is_crnl x then save_field EAT_CRNL r
               else if x = comma then save_field START_FIELD r
               else add_char x IN_FIELD r)
      | IN_QUOTED_FIELD \<Rightarrow>
          (case c of
             None \<Rightarrow> Inr r
           | Some x \<Rightarrow>
               if x = dquote then Inr (r\<lparr>rstate := QUOTE_IN_QUOTED_FIELD\<rparr>)
               else add_char x IN_QUOTED_FIELD r)
      | QUOTE_IN_QUOTED_FIELD \<Rightarrow>
          (case c of
             None \<Rightarrow> save_field START_RECORD r
           | Some x \<Rightarrow>
               if x = dquote then add_char x IN_QUOTED_FIELD r
               else if x = comma then save_field START_FIELD r
               else if is_crnl x then save_field EAT_CRNL r
               else add_char x IN_FIELD r)
      | EAT_CRNL \<Rightarrow>
          (case c of
             None \<Rightarrow> Inr (r\<lparr>rstate := START_RECORD\<rparr>)
           | Some x \<Rightarrow> if is_crnl x then Inr r else Inl CsvError))"

fun process_chars :: "str \<Rightarrow> reader \<Rightarrow> py_error + reader" where
  "process_chars [] r = Inr r"
| "process_chars (c # cs) r = bind_err (process_char (Some c) r) (process_chars cs)"

definition process_line :: "str \<Rightarrow> reader \<Rightarrow> py_error + reader" where
  \<comment> \<open>the code points of the line, then the end of the line\<close>
  "process_line l r = bind_err (process_chars l r) (process_char None)"

fun csv_rows :: "str list \<Rightarrow> reader \<Rightarrow> str list list \<times> py_error option" where
  \<comment> \<open>the rows the reader yields from these lines, and the error that ends the iteration
      if one does; a record goes on over the next line while a quoted field is open\<close>
  "csv_rows [] r =
     (if rfield r \<noteq> [] \<or> rstate r = IN_QUOTED_FIELD then ([rfields r @ [rfield r]], None)
      else ([], None))"
| "csv_rows (l # ls) r =
     (case process_line l r of
        Inl e \<Rightarrow> ([], Some e)
      | Inr r' \<Rightarrow>
          if rstate r' = START_RECORD
          then (case csv_rows ls fresh_reader of (rows, e) \<Rightarrow> (rfields r' # rows, e))
          else csv_rows ls r')"

definition csv_reader :: "str list \<Rightarrow> str list list \<times> py_error option" where
  "csv_reader ls = csv_rows ls fresh_reader"

text \<open>
  \<open>csv.DictReader\<close>: the first row gives the field names, the empty rows after it are
  passed over, and each other row becomes a dictionary: \<open>dict(zip(fieldnames, row))\<close>, where
  the last of two equal names wins, with \<open>None\<close> under the names the row is too short for.
  A dictionary is kept as the pair of the names and the row, and \<open>getitem_strip\<close> is
  \<open>d[key].strip('"')\<close> of the source.
\<close>

definition dict_rows :: "str list \<Rightarrow> (str list \<times> str list) list \<times> py_error option" where
  "dict_rows ls =
     (case csv_reader ls of
        ([], e) \<Rightarrow> ([], e)
      | (fieldnames # rows, e) \<Rightarrow> (map (\<lambda>row. (fieldnames, row)) (filter (\<lambda>row. row \<noteq> []) rows), e))"

definition getitem_strip :: "str list \<times> str list \<Rightarrow> str \<Rightarrow> py_error + str" where
  "getitem_strip d key =
     (case d of (fieldnames, row) \<Rightarrow>
        if key \<in> set (drop (length row) fieldnames) then Inl AttributeError
        else (case map_of (rev (zip fieldnames row)) key of
                None \<Rightarrow> Inl KeyError
              | Some v \<Rightarrow> Inr (py_strip_char dquote v)))"

text \<open>
  \<open>json.loads\<close> on the text of a column. The model reads a JSON array of strings, which
  is what the encoder writes, and follows the decoder there: whitespace between the tokens,
  the escapes of a string, no control character inside a string, nothing after the array.
  Where the text is no JSON at all the result is \<open>JSONDecodeError\<close>, as raised. The model
  stops with \<open>Unmodelled\<close> where the array holds or the text is another kind of JSON value,
  and at an escaped high surrogate: the decoder may raise there or return some value, and
  nothing is stated about those texts.
\<close>

definition hexval :: "codepoint \<Rightarrow> nat option" where
  "hexval c =
     (if 48 \<le> c \<and> c \<le> 57 then Some (c - 48)
      else if 97 \<le> c \<and> c \<le> 102 then Some (c - 87)
      else if 65 \<le> c \<and> c \<le> 70 then Some (c - 55)
      else None)"

definition hex4 :: "codepoint \<Rightarrow> codepoint \<Rightarrow> codepoint \<Rightarrow> codepoint \<Rightarrow> nat option" where
  "hex4 a b c d =
     (case (hexval a, hexval b, hexval c, hexval d) of
        (Some x, Some y, Some z, Some w) \<Rightarrow> Some (((x * 16 + y) * 16 + z) * 16 + w)
      | _ \<Rightarrow> None)"

definition simple_escape :: "codepoint \<Rightarrow> codepoint option" where
  \<comment> \<open>the code point after a backslash: the quote, the backslash, the slash, b, f, n, r, t\<close>
  "simple_escape e =
     (if e = 34 \<or> e = 92 \<or> e = 47 then Some e
      else if e = 98 then Some 8
      else if e = 102 then Some 12
      else if e = 110 then Some 10
      else if e = 114 then Some 13
      else if e = 116 then Some 9
      else None)"

fun scan_string :: "str \<Rightarrow> str \<Rightarrow> py_error + (str \<times> str)" where
  \<comment> \<open>after the opening quote: the string read so far, the text; gives the string and the
      text after the closing quote\<close>
  "scan_string acc [] = Inl JSONDecodeError"
| "scan_string acc (c # r) =
     (if c = dquote then Inr (acc, r)
      else if c = 92 then
        (case r of
           [] \<Rightarrow> Inl JSONDecodeError
         | e # r1 \<Rightarrow>
             if e = 117 then
               (case r1 of
                  h1 # h2 # h3 # h4 # r2 \<Rightarrow>
                    (case hex4 h1 h2 h3 h4 of
                       None \<Rightarrow> Inl JSONDecodeError
                     | Some u \<Rightarrow>
                         if 55296 \<le> u \<and> u \<le> 56319 then Inl Unmodelled
                         else scan_string (acc @ [u]) r2)
                | _ \<Rightarrow> Inl JSONDecodeError)
             else (case simple_escape e of
                     None \<Rightarrow> Inl JSONDecodeError
                   | Some x \<Rightarrow> scan_string (acc @ [x]) r1))
      else if c < 32 then Inl JSONDecodeError
      else scan_string (acc @ [c]) r)"

definition json_ws :: "codepoint \<Rightarrow> bool" where
  "json_ws c \<longleftrightarrow> c = 32 \<or> c = 9 \<or> c = 10 \<or> c = 13"

lemma scan_string_rest: "scan_string acc t = Inr (s, r) \<Longrightarrow> length r < length t"
proof (induction acc t rule: scan_string.induct)
  case (1 acc)
  then show ?case by simp
next
  case (2 acc c t)
  show ?case
  proof (cases "c = dquote")
    case True
    then show ?thesis using "2.prems" by simp
  next
    case nq: False
    show ?thesis
    proof (cases "c = 92")
      case False
      then have "scan_string (acc @ [c]) t = Inr (s, r)"
        using "2.prems" nq by (simp split: if_splits)
      moreover have "\<not> c < 32" using "2.prems" nq False by (simp split: if_splits)
      ultimately have "length r < length t" using "2.IH"(3) nq False by simp
      then show ?thesis by simp
    next
      case True
      then obtain e r1 where t: "t = e # r1"
        using "2.prems" nq by (cases t) simp_all
      show ?thesis
      proof (cases "e = 117")
        case False
        then obtain x where x: "simple_escape e = Some x" and "scan_string (acc @ [x]) r1 = Inr (s, r)"
          using "2.prems" nq True t by (cases "simple_escape e") simp_all
        then have "length r < length r1" using "2.IH"(2) nq True t False by simp
        then show ?thesis using t by simp
      next
        case u: True
        then obtain h1 h2 h3 h4 r2 where r1: "r1 = h1 # h2 # h3 # h4 # r2"
          using "2.prems" nq True t by (auto split: list.splits)
        then obtain v where v: "hex4 h1 h2 h3 h4 = Some v"
          using "2.prems" nq True t u by (cases "hex4 h1 h2 h3 h4") simp_all
        then have "\<not> (55296 \<le> v \<and> v \<le> 56319)" and "scan_string (acc @ [v]) r2 = Inr (s, r)"
          using "2.prems" nq True t u r1 by (simp_all split: if_splits)
        then have "length r < length r2" using "2.IH"(1) nq True t u r1 v by simp
        then show ?thesis using t r1 by simp
      qed
    qed
  qed
qed

function scan_items :: "str list \<Rightarrow> str \<Rightarrow> py_error + (str list \<times> str)" where
  \<comment> \<open>the items of a non-empty array, the text standing at the start of an item\<close>
  "scan_items acc [] = Inl JSONDecodeError"
| "scan_items acc (c # r) =
     (if c \<noteq> dquote then Inl Unmodelled
      else
        case scan_string [] r of
          Inl e \<Rightarrow> Inl e
        | Inr (s, t1) \<Rightarrow>
            (case dropWhile json_ws t1 of
               [] \<Rightarrow> Inl JSONDecodeError
             | d # t2 \<Rightarrow>
                 if d = 93 then Inr (acc @ [s], t2)
                 else if d = comma then scan_items (acc @ [s]) (dropWhile json_ws t2)
                 else Inl JSONDecodeError))"
  by pat_completeness auto
termination
proof (relation "measure (\<lambda>(acc, t). length t)", goal_cases)
  case 1
  show ?case by simp
next
  case (2 acc c r x2 x y d t2)
  then have "length y < length r" and "length (d # t2) \<le> length y"
    using scan_string_rest [of "[]" r x y] length_dropWhile_le [of json_ws y] by simp_all
  moreover have "length (dropWhile json_ws t2) \<le> length t2" by (rule length_dropWhile_le)
  ultimately show ?case by simp
qed

definition json_loads :: "str \<Rightarrow> py_error + str list" where
  "json_loads s =
     (if startswith [65279] s then Inl JSONDecodeError
      else
        case dropWhile json_ws s of
          [] \<Rightarrow> Inl JSONDecodeError
        | c # t \<Rightarrow>
            if c \<noteq> 91 then Inl Unmodelled
            else
              bind_err
                (case dropWhile json_ws t of
                   [] \<Rightarrow> Inl JSONDecodeError
                 | d # t1 \<Rightarrow> if d = 93 then Inr ([], t1) else scan_items [] (dropWhile json_ws t))
                (\<lambda>(xs, rest). if dropWhile json_ws rest = [] then Inr xs else Inl JSONDecodeError))"

definition getitem_json :: "str list \<times> str list \<Rightarrow> str \<Rightarrow> py_error + str list" where
  \<comment> \<open>\<open>json.loads(d[key].strip('"').replace('""', '"'))\<close>\<close>
  "getitem_json d key = bind_err (getitem_strip d key) (\<lambda>v. json_loads (replace_doubled v))"

definition decode_row :: "str list \<times> str list \<Rightarrow> py_error + flat_doc" where
  \<comment> \<open>lines 213 to 220, the values in the order the dictionary display evaluates them\<close>
  "decode_row d =
     bind_err (getitem_strip d (ascii ''document_id'')) (\<lambda>i.
     bind_err (getitem_json d (ascii ''diagnostico'')) (\<lambda>dg.
     bind_err (getitem_json d (ascii ''cie10'')) (\<lambda>ci.
     bind_err (getitem_strip d (ascii ''destino_alta'')) (\<lambda>de.
     bind_err (getitem_json d (ascii ''medicamentos'')) (\<lambda>me.
     bind_err (getitem_json d (ascii ''consultas'')) (\<lambda>co.
       Inr \<lparr>document_id = i, diagnostico = dg, cie10 = ci, destino_alta = de,
            medicamentos = me, consultas = co\<rparr>))))))"

fun decode_rows :: "(str list \<times> str list) list \<Rightarrow> py_error option \<Rightarrow> py_error + flat_doc list" where
  \<comment> \<open>the loop of lines 212 to 221: the rows in order, then the error of the reader if any\<close>
  "decode_rows [] None = Inr []"
| "decode_rows [] (Some e) = Inl e"
| "decode_rows (d # ds) e =
     bind_err (decode_row d) (\<lambda>x. bind_err (decode_rows ds e) (\<lambda>xs. Inr (x # xs)))"

definition decode_flat_csv :: "str \<Rightarrow> py_error + flat_doc list" where
  \<comment> \<open>lines 208 to 221: \<open>converted_docs\<close>\<close>
  "decode_flat_csv csv_content =
     (case dict_rows (split_on newline [] (py_strip csv_content)) of (ds, e) \<Rightarrow> decode_rows ds e)"

section \<open>validate\_conversion: comparing the documents\<close>

definition field_issues :: "section_key \<Rightarrow> str list \<Rightarrow> str list \<Rightarrow> issue list" where
  \<comment> \<open>lines 243 to 257, for one of the four list fields\<close>
  "field_issues f orig conv =
     (if set orig \<noteq> set conv
      then (if set orig - set conv \<noteq> {} then [FALTA f (set orig - set conv)] else []) @
           (if set conv - set orig \<noteq> {} then [EXTRA f (set conv - set orig)] else [])
      else []) @
     (if length orig \<noteq> length conv then [Conteo f (length orig) (length conv)] else [])"

definition check_doc :: "doc \<Rightarrow> flat_doc \<Rightarrow> issue list" where
  \<comment> \<open>lines 235 to 261: \<open>doc_issues\<close> for one pair\<close>
  "check_doc orig conv =
     (if document_id orig \<noteq> document_id conv then [Document_ID (document_id orig) (document_id conv)] else []) @
     field_issues Diagnostico (diagnostico orig) (diagnostico conv) @
     field_issues Cie10 (cie10 orig) (cie10 conv) @
     field_issues Medicamentos (medicamentos orig) (medicamentos conv) @
     field_issues Consultas (consultas orig) (consultas conv) @
     (if destino_alta orig \<noteq> destino_alta conv then [Destino (destino_alta orig) (destino_alta conv)] else [])"

text \<open>
  The function returns a truth value; what it prints, and the list \<open>discrepancies\<close> it has
  built when it returns, are kept beside it. In \<open>validation\<close>, \<open>all_valid\<close> is the value
  returned.
\<close>

record validation =
  all_valid :: bool
  discrepancies :: "(str \<times> issue list) list"
  printed :: "event list"

fun validate_docs :: "nat \<Rightarrow> (doc \<times> flat_doc) list \<Rightarrow> validation \<Rightarrow> validation" where
  \<comment> \<open>the loop of lines 234 to 274, \<open>i\<close> counting from 0\<close>
  "validate_docs i [] v = v"
| "validate_docs i ((orig, conv) # rest) v =
     (let doc_issues = check_doc orig conv
      in validate_docs (Suc i) rest
           (if doc_issues \<noteq> []
            then v\<lparr>all_valid := False,
                   discrepancies := discrepancies v @ [(document_id orig, doc_issues)],
                   printed := printed v @ Documento_error (i + 1) (document_id orig) # map Issue doc_issues\<rparr>
            else v\<lparr>printed := printed v @ [Documento_OK (i + 1) (document_id orig)]\<rparr>))"

definition validate_run :: "doc list \<Rightarrow> str \<Rightarrow> py_error + validation" where
  "validate_run original_docs csv_content =
     bind_err (decode_flat_csv csv_content) (\<lambda>converted_docs.
       if length original_docs \<noteq> length converted_docs
       then Inr \<lparr>all_valid = False, discrepancies = [],
                  printed = [Paso3, Conteo_no_coincide (length original_docs) (length converted_docs)]\<rparr>
       else
         let v = validate_docs 0 (zip original_docs converted_docs)
                   \<lparr>all_valid = True, discrepancies = [],
                    printed = [Paso3, Conteo_OK (length original_docs)]\<rparr>
         in Inr (v\<lparr>printed := printed v @
                     [Blank, if all_valid v then Validacion_exitosa
                             else Validacion_fallida (length (discrepancies v))]\<rparr>))"

definition validate_conversion :: "doc list \<Rightarrow> str \<Rightarrow> py_error + bool" where
  "validate_conversion original_docs csv_content =
     bind_err (validate_run original_docs csv_content) (\<lambda>v. Inr (all_valid v))"

section \<open>main\<close>

text \<open>
  What a run does to the file system, in order. The run reads whether the input file
  exists, the rows \<open>csv.reader\<close> yields for it, and the date twice: in
  \<open>convert_to_flat_csv\<close> and before saving. Writing is taken to succeed. The pointer
  holds the version and the SHA-256 of the file just written, named here by its content.
\<close>

datatype path = OUTPUT_DIR | Version_dir str | Csv_output_path str | Json_output_path str | Pointer_path

datatype content = Flat_csv str | Debug_json "doc list" | Latest_pointer str str

datatype effect = Mkdir path | Write path content

record run =
  effects :: "effect list"
  console :: "event list"
  raised :: "py_error option"

definition main :: "bool \<Rightarrow> str list list \<Rightarrow> str \<Rightarrow> str \<Rightarrow> run" where
  "main input_exists rows version_convert version =
     (let r = \<lparr>effects = [Mkdir OUTPUT_DIR], console = [Titulo], raised = None\<rparr>
      in if \<not> input_exists then r\<lparr>console := console r @ [Archivo_no_encontrado]\<rparr>
         else
           let original_docs = parse_hierarchical_csv rows;
               r = r\<lparr>console := console r @ [Rutas] @ parse_printed rows\<rparr>
           in if original_docs = [] then r\<lparr>console := console r @ [No_se_pudieron_parsear]\<rparr>
              else
                let csv_content = convert_to_flat_csv version_convert original_docs;
                    r = r\<lparr>console := console r @ convert_printed version_convert original_docs\<rparr>
                in case validate_run original_docs csv_content of
                     Inl e \<Rightarrow> r\<lparr>console := console r @ [Paso3], raised := Some e\<rparr>
                   | Inr v \<Rightarrow>
                       let r = r\<lparr>console := console r @ printed v\<rparr>
                       in if \<not> all_valid v then r\<lparr>console := console r @ [Bloqueado]\<rparr>
                          else
                            r\<lparr>effects := effects r @
                                 [Mkdir (Version_dir version),
                                  Write (Csv_output_path version) (Flat_csv csv_content),
                                  Write (Json_output_path version) (Debug_json original_docs),
                                  Write Pointer_path (Latest_pointer version csv_content)],
                              console := console r @
                                 [Comparacion original_docs csv_content, Paso4, CSV_guardado,
                                  JSON_guardado, LATEST_creado,
                                  Resumen_final (length original_docs) version]\<rparr>)"

section \<open>The normalizer as the specification words it\<close>

text \<open>
  Section 4.1 of the specification: fold the smart quotes; trim, strip one layer of
  enclosing quote characters, trim again; collapse the runs of whitespace. One layer is
  the first and the last code point of a text that starts and ends with the same quote.
\<close>

definition spec_strip_one_layer :: "str \<Rightarrow> str" where
  "spec_strip_one_layer s =
     (case s of
        [] \<Rightarrow> []
      | q # r \<Rightarrow> if is_quote q \<and> r \<noteq> [] \<and> last r = q then butlast r else s)"

definition spec_normalize :: "str \<Rightarrow> str" where
  "spec_normalize raw =
     py_join (ascii '' '')
       (py_split (py_strip (spec_strip_one_layer (py_strip (fold_smart_quotes raw)))))"

section \<open>The Null wrapper as the specification words it\<close>

text \<open>
  Section 4.2 of the specification: a value matching the pattern \<open>Null(<inner>)\<close>, the
  letters in either case. The value is the word, an opening parenthesis, the inner text and
  a closing parenthesis, so the inner text is what stands between the first parenthesis and
  the last code point.
\<close>

definition spec_null_inner :: "str \<Rightarrow> str option" where
  "spec_null_inner v =
     (case v of
        a # b # c # d # p # r \<Rightarrow>
          if (a = 78 \<or> a = 110) \<and> (b = 85 \<or> b = 117) \<and> (c = 76 \<or> c = 108) \<and> (d = 76 \<or> d = 108) \<and>
             p = 40 \<and> r \<noteq> [] \<and> last r = 41
          then Some (butlast r)
          else None
      | _ \<Rightarrow> None)"

section \<open>Invariants of the parser state\<close>

definition addresses_ok :: "pstate \<Rightarrow> bool" where
  \<comment> \<open>every reference held by the state is to a dictionary of the store\<close>
  "addresses_ok s \<longleftrightarrow>
     (case current_doc s of None \<Rightarrow> True | Some a \<Rightarrow> a < length (heap s)) \<and>
     list_all (\<lambda>a. a < length (heap s)) (documents s)"

definition distinct_fields :: "doc \<Rightarrow> bool" where
  "distinct_fields d \<longleftrightarrow>
     distinct (diagnostico d) \<and> distinct (cie10 d) \<and> distinct (medicamentos d) \<and> distinct (consultas d)"

definition list_field :: "section_key \<Rightarrow> doc \<Rightarrow> str list" where
  \<comment> \<open>\<open>current_doc[current_section]\<close> for the four list fields\<close>
  "list_field sec d =
     (case sec of
        Diagnostico \<Rightarrow> diagnostico d
      | Cie10 \<Rightarrow> cie10 d
      | Medicamentos \<Rightarrow> medicamentos d
      | Consultas \<Rightarrow> consultas d
      | Destino_alta \<Rightarrow> [])"

section \<open>Evaluation\<close>

text \<open>The defining equations that a concrete run unfolds.\<close>

lemmas string_eval = clean_text_def fold_smart_quotes_def py_strip_def py_strip_char_def py_replace_char_def
  py_split_def isspace_def dquote_def squote_def newline_def Let_def
lemmas regex_eval = is_quote_def at_end_def quote_then_end_def quoted_group_def marker_match_here_def
  isdigit_def digit_runs_def null_match_def upper_eq_NO_def lower_eq_null_def
lemmas parser_eval = new_doc_def init_state_def add_value_def data_value_def data_row_def
  marker_row_def section_header_def process_row_def finish_def parse_state_def parse_hierarchical_csv_def

lemma strip_char_decomp:
  "\<exists>a d. s = replicate a q @ py_strip_char q s @ replicate d q"
proof -
  let ?P = "\<lambda>c. c = q"
  let ?s1 = "dropWhile ?P s"
  have 1: "s = takeWhile ?P s @ ?s1" by simp
  have 2: "takeWhile ?P s = replicate (length (takeWhile ?P s)) q"
    by (metis (mono_tags, lifting) replicate_length_same set_takeWhileD)
  have 3: "rev ?s1 = takeWhile ?P (rev ?s1) @ dropWhile ?P (rev ?s1)" by simp
  have 4: "takeWhile ?P (rev ?s1) = replicate (length (takeWhile ?P (rev ?s1))) q"
    by (metis (mono_tags, lifting) replicate_length_same set_takeWhileD)
  have "?s1 = rev (dropWhile ?P (rev ?s1)) @ rev (takeWhile ?P (rev ?s1))"
    by (metis 3 rev_append rev_rev_ident)
  then have 5: "?s1 = py_strip_char q s @ replicate (length (takeWhile ?P (rev ?s1))) q"
    using 4 by (metis py_strip_char_def rev_replicate)
  show ?thesis using 1 2 5 by metis
qed

lemma strip_char_no_suffix: "\<not> suffix [q] (py_strip_char q s)"
proof
  assume "suffix [q] (py_strip_char q s)"
  then obtain z where z: "py_strip_char q s = z @ [q]" by (auto simp: suffix_def)
  then have "dropWhile (\<lambda>c. c = q) (rev (dropWhile (\<lambda>c. c = q) s)) = q # rev z"
    unfolding py_strip_char_def by (metis rev.simps(2) rev_rev_ident rev_append append_Nil rev_singleton_conv rev_swap)
  then show False
    by (metis (mono_tags, lifting) hd_dropWhile list.sel(1) list.distinct(1))
qed

lemma strip_char_no_prefix: "\<not> prefix [q] (py_strip_char q s)"
proof
  let ?P = "\<lambda>c. c = q"
  let ?s1 = "dropWhile ?P s"
  assume "prefix [q] (py_strip_char q s)"
  then obtain z where z: "py_strip_char q s = q # z" by (auto simp: prefix_def)
  obtain d where d: "?s1 = py_strip_char q s @ replicate d q"
  proof -
    have 3: "rev ?s1 = takeWhile ?P (rev ?s1) @ dropWhile ?P (rev ?s1)" by simp
    have 4: "takeWhile ?P (rev ?s1) = replicate (length (takeWhile ?P (rev ?s1))) q"
      by (metis (mono_tags, lifting) replicate_length_same set_takeWhileD)
    have "?s1 = rev (dropWhile ?P (rev ?s1)) @ rev (takeWhile ?P (rev ?s1))"
      by (metis 3 rev_append rev_rev_ident)
    then have "?s1 = py_strip_char q s @ replicate (length (takeWhile ?P (rev ?s1))) q"
      using 4 by (metis py_strip_char_def rev_replicate)
    then show ?thesis using that by blast
  qed
  then have "?s1 = q # (z @ replicate d q)" using z by simp
  then show False
    by (metis (mono_tags, lifting) hd_dropWhile list.sel(1) list.distinct(1))
qed

lemmas encoder_eval = hexdigit_def json_escape_def json_string_def json_dumps_def csv_quote_def
  row_values_def csv_row_def header_def output_lines_def convert_to_flat_csv_def
lemmas decoder_eval = bind_err_def fresh_reader_def field_limit_def add_char_def save_field_def
  is_crnl_def comma_def start_field_def process_char_def process_line_def csv_reader_def dict_rows_def
  getitem_strip_def hexval_def hex4_def simple_escape_def json_ws_def json_loads_def getitem_json_def
  decode_row_def decode_flat_csv_def
section \<open>The steps of the parser\<close>

lemma process_row_marker:
  "marker_cell row = Some c \<Longrightarrow> process_row n row s = marker_row c s"
  by (cases row) (auto simp: process_row_def marker_cell_def Let_def split: if_splits)

lemma process_row_other:
  assumes "marker_cell row = None"
  shows "process_row n row s = s \<or>
         (\<exists>x. process_row n row s = s\<lparr>current_section := Some x\<rparr>) \<or>
         (\<exists>cell rest a sec. row = cell # rest \<and> list_ex (\<lambda>c. c \<noteq> []) row \<and>
              section_header (py_strip cell) = None \<and>
              current_doc s = Some a \<and> current_section s = Some sec \<and>
              process_row n row s = data_row n (py_strip cell) a sec s)"
proof (cases row)
  case Nil
  then show ?thesis by (simp add: process_row_def)
next
  case (Cons cell rest)
  show ?thesis
  proof (cases "list_ex (\<lambda>c. c \<noteq> []) row")
    case False
    then show ?thesis using Cons by (simp add: process_row_def)
  next
    case True
    then have nm: "\<not> startswith (ascii ''Document ('') (clean_text (py_strip cell))"
      using assms Cons by (auto simp: marker_cell_def Let_def split: if_splits)
    have p: "process_row n row s =
        (case section_header (py_strip cell) of
           Some sec \<Rightarrow> s\<lparr>current_section := Some sec\<rparr>
         | None \<Rightarrow> (case (current_doc s, current_section s) of
                      (Some a, Some sec) \<Rightarrow> data_row n (py_strip cell) a sec s
                    | _ \<Rightarrow> s))"
      using Cons True nm by (simp add: process_row_def Let_def)
    show ?thesis
      unfolding p using Cons True
      by (cases "section_header (py_strip cell)"; cases "current_doc s"; cases "current_section s") auto
  qed
qed

lemma marker_row_heap:
  "heap (marker_row c s) = heap s @ (case marker_search c of None \<Rightarrow> [] | Some g \<Rightarrow> [new_doc (clean_text g)])"
  by (auto simp: marker_row_def Let_def split: option.splits)

lemma marker_row_failed:
  "marker_search c = None \<Longrightarrow>
     marker_row c s = s\<lparr>documents := documents s @ (case current_doc s of None \<Rightarrow> [] | Some a \<Rightarrow> [a])\<rparr>"
  by (auto simp: marker_row_def Let_def split: option.splits)

lemma marker_row_addresses: "addresses_ok s \<Longrightarrow> addresses_ok (marker_row c s)"
  by (auto simp: marker_row_def addresses_ok_def Let_def list_all_iff split: option.splits)

lemma data_row_addresses: "addresses_ok s \<Longrightarrow> addresses_ok (data_row n fc a sec s)"
  by (auto simp: data_row_def addresses_ok_def Let_def split: option.splits)

lemma process_row_addresses: "addresses_ok s \<Longrightarrow> addresses_ok (process_row n row s)"
proof (cases "marker_cell row")
  case (Some c)
  assume "addresses_ok s"
  then show ?thesis using Some by (simp add: process_row_marker marker_row_addresses)
next
  case None
  assume a: "addresses_ok s"
  have "addresses_ok (s\<lparr>current_section := x\<rparr>)" for x
    using a by (auto simp: addresses_ok_def split: option.splits)
  then show ?thesis using process_row_other [OF None, of n s] a data_row_addresses by metis
qed

lemma add_value_distinct: "distinct_fields d \<Longrightarrow> distinct_fields (add_value sec v d)"
  by (cases sec) (auto simp: add_value_def distinct_fields_def)

lemma data_row_distinct:
  assumes "list_all distinct_fields (heap s)" "a < length (heap s)"
  shows "list_all distinct_fields (heap (data_row n fc a sec s))"
proof (cases "data_value fc")
  case None
  then show ?thesis using assms by (simp add: data_row_def)
next
  case (Some v)
  have "distinct_fields (heap s ! a)" using assms by (simp add: list_all_length)
  then have "distinct_fields ((add_value sec v (heap s ! a))\<lparr>raw_rows := r\<rparr>)" for r
    using add_value_distinct [of "heap s ! a" sec v] by (simp add: distinct_fields_def)
  then show ?thesis using Some assms
    by (auto simp: data_row_def Let_def list_all_iff dest!: set_update_subset_insert [THEN subsetD])
qed

lemma marker_row_distinct:
  "list_all distinct_fields (heap s) \<Longrightarrow> list_all distinct_fields (heap (marker_row c s))"
  by (auto simp: marker_row_heap new_doc_def distinct_fields_def split: option.splits)

lemma process_row_distinct:
  assumes "addresses_ok s" "list_all distinct_fields (heap s)"
  shows "list_all distinct_fields (heap (process_row n row s))"
proof (cases "marker_cell row")
  case (Some c)
  then show ?thesis using assms by (simp add: process_row_marker marker_row_distinct)
next
  case None
  from process_row_other [OF None, of n s]
  show ?thesis
  proof (elim disjE exE conjE)
    fix cell rest a sec
    assume "current_doc s = Some a" and p: "process_row n row s = data_row n (py_strip cell) a sec s"
    then have "a < length (heap s)" using assms(1) by (simp add: addresses_ok_def)
    then show ?thesis using p assms(2) by (simp add: data_row_distinct)
  qed (use assms in auto)
qed

lemma parse_rows_invariant:
  "addresses_ok s \<Longrightarrow> list_all distinct_fields (heap s) \<Longrightarrow>
     addresses_ok (parse_rows n rows s) \<and> list_all distinct_fields (heap (parse_rows n rows s))"
proof (induction rows arbitrary: n s)
  case Nil
  then show ?case by simp
next
  case (Cons row rows)
  then show ?case by (simp add: process_row_addresses process_row_distinct)
qed

lemma parse_state_invariant:
  "addresses_ok (parse_state rows) \<and> list_all distinct_fields (heap (parse_state rows))"
proof -
  have i: "addresses_ok init_state" "list_all distinct_fields (heap init_state)"
    by (simp_all add: init_state_def addresses_ok_def)
  have f: "addresses_ok s \<Longrightarrow> addresses_ok (finish s)" for s
    by (auto simp: finish_def addresses_ok_def split: option.splits)
  have h: "heap (finish s) = heap s" for s
    by (auto simp: finish_def split: option.splits)
  show ?thesis
    unfolding parse_state_def using parse_rows_invariant [OF i] f h by simp
qed

lemma parsed_in_heap:
  "set (parse_hierarchical_csv rows) \<subseteq> set (heap (parse_state rows))"
  using parse_state_invariant [of rows]
  by (auto simp: parse_hierarchical_csv_def Let_def addresses_ok_def list_all_iff)

lemma add_value_list_field:
  "list_field sec (add_value sec' v d) = list_field sec d \<or>
   (sec' = sec \<and> v \<notin> set (list_field sec d) \<and> list_field sec (add_value sec' v d) = list_field sec d @ [v])"
  by (cases sec; cases sec') (auto simp: add_value_def list_field_def)

lemma list_field_raw_rows [simp]: "list_field sec (d\<lparr>raw_rows := r\<rparr>) = list_field sec d"
  by (cases sec) (simp_all add: list_field_def)

lemma data_row_list_field:
  assumes "b < length (heap s)"
  shows "list_field sec (heap (data_row n fc a sec' s) ! b) = list_field sec (heap s ! b) \<or>
         (\<exists>v. data_value fc = Some v \<and> v \<notin> set (list_field sec (heap s ! b)) \<and>
              list_field sec (heap (data_row n fc a sec' s) ! b) = list_field sec (heap s ! b) @ [v])"
proof (cases "data_value fc")
  case None
  then show ?thesis by (simp add: data_row_def)
next
  case (Some v)
  show ?thesis
  proof (cases "a = b")
    case True
    then show ?thesis
      using Some assms add_value_list_field [of sec sec' v "heap s ! b"]
      by (auto simp: data_row_def Let_def)
  next
    case False
    then show ?thesis using Some by (simp add: data_row_def Let_def)
  qed
qed

lemma marker_row_nth:
  "b < length (heap s) \<Longrightarrow> heap (marker_row c s) ! b = heap s ! b"
  by (simp add: marker_row_heap nth_append)

lemma process_row_list_field:
  assumes "b < length (heap s)"
  shows "list_field sec (heap (process_row n row s) ! b) = list_field sec (heap s ! b) \<or>
         (\<exists>cell rest v. row = cell # rest \<and> data_value (py_strip cell) = Some v \<and>
              v \<notin> set (list_field sec (heap s ! b)) \<and>
              list_field sec (heap (process_row n row s) ! b) = list_field sec (heap s ! b) @ [v])"
proof (cases "marker_cell row")
  case (Some c)
  then show ?thesis using assms by (simp add: process_row_marker marker_row_nth)
next
  case None
  from process_row_other [OF None, of n s]
  show ?thesis
  proof (elim disjE exE conjE)
    fix cell rest a sec'
    assume r: "row = cell # rest" and p: "process_row n row s = data_row n (py_strip cell) a sec' s"
    show ?thesis
      unfolding p using data_row_list_field [OF assms, of sec n "py_strip cell" a sec'] r by auto
  qed auto
qed

lemma marker_failed_cell:
  "marker_failed row \<Longrightarrow> \<exists>c. marker_cell row = Some c \<and> marker_search c = None"
  by (auto simp: marker_failed_def is_marker_def extraction_def split: option.splits)

lemma process_row_failed:
  "marker_failed row \<Longrightarrow>
     process_row n row s = s\<lparr>documents := documents s @ (case current_doc s of None \<Rightarrow> [] | Some a \<Rightarrow> [a])\<rparr>"
  using marker_failed_cell [of row] by (auto simp: process_row_marker marker_row_failed)

lemma add_value_document_id [simp]: "document_id (add_value sec v d) = document_id d"
  by (cases sec) (simp_all add: add_value_def)

lemma data_row_ids: "document_id ` set (heap (data_row n fc a sec s)) \<subseteq> document_id ` set (heap s)"
proof (cases "data_value fc")
  case None
  then show ?thesis by (simp add: data_row_def)
next
  case (Some v)
  define x where "x = (add_value sec v (heap s ! a))\<lparr>raw_rows := raw_rows (add_value sec v (heap s ! a)) @ [(n, sec, v)]\<rparr>"
  have h: "heap (data_row n fc a sec s) = (heap s)[a := x]"
    using Some by (simp add: data_row_def Let_def x_def)
  show ?thesis
  proof (cases "a < length (heap s)")
    case True
    have i: "document_id x = document_id (heap s ! a)" by (simp add: x_def)
    have m: "heap s ! a \<in> set (heap s)" using True by simp
    have "set ((heap s)[a := x]) \<subseteq> insert x (set (heap s))" by (rule set_update_subset_insert)
    then have "document_id ` set ((heap s)[a := x]) \<subseteq> insert (document_id x) (document_id ` set (heap s))"
      by blast
    then show ?thesis unfolding h using i m by auto
  next
    case False
    then show ?thesis unfolding h by (simp add: list_update_beyond)
  qed
qed

lemma process_row_ids:
  "document_id ` set (heap (process_row n row s)) \<subseteq>
     document_id ` set (heap s) \<union> (case extraction row of None \<Rightarrow> {} | Some g \<Rightarrow> {clean_text g})"
proof (cases "marker_cell row")
  case (Some c)
  then show ?thesis
    by (auto simp: process_row_marker marker_row_heap extraction_def new_doc_def split: option.splits)
next
  case None
  from process_row_other [OF None, of n s]
  show ?thesis
  proof (elim disjE exE conjE)
    fix cell rest a sec
    assume p: "process_row n row s = data_row n (py_strip cell) a sec s"
    show ?thesis unfolding p using data_row_ids [of n "py_strip cell" a sec s] by blast
  qed auto
qed

lemma parse_rows_ids:
  "document_id ` set (heap (parse_rows n rows s)) \<subseteq>
     document_id ` set (heap s) \<union> {clean_text g | g row. row \<in> set rows \<and> extraction row = Some g}"
proof (induction rows arbitrary: n s)
  case Nil
  then show ?case by simp
next
  case (Cons row rows)
  let ?E = "\<lambda>rs. {clean_text g | g r. r \<in> set rs \<and> extraction r = Some g}"
  have e: "?E (row # rows) = (case extraction row of None \<Rightarrow> {} | Some g \<Rightarrow> {clean_text g}) \<union> ?E rows"
    by (cases "extraction row") auto
  have 1: "document_id ` set (heap (parse_rows (Suc n) rows (process_row n row s))) \<subseteq>
        document_id ` set (heap (process_row n row s)) \<union> ?E rows"
    by (rule Cons.IH)
  have 2: "document_id ` set (heap (process_row n row s)) \<subseteq>
        document_id ` set (heap s) \<union> (case extraction row of None \<Rightarrow> {} | Some g \<Rightarrow> {clean_text g})"
    by (rule process_row_ids)
  have "document_id ` set (heap (parse_rows (Suc n) rows (process_row n row s))) \<subseteq>
        document_id ` set (heap s) \<union> ?E (row # rows)"
    unfolding e using 1 2 by blast
  then show ?case by simp
qed

lemma process_row_count:
  assumes "\<not> marker_failed row"
  shows "length (documents (process_row n row s)) + (case current_doc (process_row n row s) of None \<Rightarrow> 0 | Some a \<Rightarrow> 1)
       = length (documents s) + (case current_doc s of None \<Rightarrow> 0 | Some a \<Rightarrow> 1)
         + (if marker_extracted row then 1 else 0)"
proof (cases "marker_cell row")
  case (Some c)
  then obtain g where g: "marker_search c = Some g"
    using assms by (auto simp: marker_failed_def is_marker_def extraction_def)
  then have "marker_extracted row" using Some by (simp add: marker_extracted_def extraction_def)
  then show ?thesis
    using Some g by (cases "current_doc s") (simp_all add: process_row_marker marker_row_def)
next
  case None
  then have e: "\<not> marker_extracted row" by (simp add: marker_extracted_def extraction_def)
  from process_row_other [OF None, of n s]
  show ?thesis
  proof (elim disjE exE conjE)
    fix cell rest a sec
    assume p: "process_row n row s = data_row n (py_strip cell) a sec s"
    show ?thesis unfolding p using e by (cases "data_value (py_strip cell)") (simp_all add: data_row_def Let_def)
  qed (use e in auto)
qed

lemma parse_rows_count:
  "list_all (\<lambda>row. \<not> marker_failed row) rows \<Longrightarrow>
     length (documents (parse_rows n rows s)) + (case current_doc (parse_rows n rows s) of None \<Rightarrow> 0 | Some a \<Rightarrow> 1)
       = length (documents s) + (case current_doc s of None \<Rightarrow> 0 | Some a \<Rightarrow> 1)
         + length (filter marker_extracted rows)"
proof (induction rows arbitrary: n s)
  case Nil
  then show ?case by simp
next
  case (Cons row rows)
  then have "\<not> marker_failed row" and "list_all (\<lambda>row. \<not> marker_failed row) rows" by simp_all
  then show ?case
    using Cons.IH [of "Suc n" "process_row n row s"] process_row_count [of row n s] by simp
qed

section \<open>Lengths\<close>

lemma py_strip_length: "length (py_strip s) \<le> length s"
proof -
  have "length (dropWhile isspace (rev (dropWhile isspace s))) \<le> length (rev (dropWhile isspace s))"
    by (rule length_dropWhile_le)
  also have "\<dots> \<le> length s" using length_dropWhile_le [of isspace s] by simp
  finally show ?thesis by (simp add: py_strip_def)
qed

lemma py_strip_char_length: "length (py_strip_char q s) \<le> length s"
proof -
  let ?P = "\<lambda>c. c = q"
  have "length (dropWhile ?P (rev (dropWhile ?P s))) \<le> length (rev (dropWhile ?P s))"
    by (rule length_dropWhile_le)
  also have "\<dots> \<le> length s" using length_dropWhile_le [of ?P s] by simp
  finally show ?thesis by (simp add: py_strip_char_def)
qed

lemma py_join_cons_length: "length (py_join [x] (w # ys)) \<le> length w + 1 + length (py_join [x] ys)"
  by (cases ys) simp_all

lemma split_join_length:
  "length (py_join [x] (py_split_from w s)) \<le> length w + length s"
proof (induction s arbitrary: w)
  case Nil
  then show ?case by simp
next
  case (Cons c cs)
  show ?case
  proof (cases "isspace c")
    case False
    then show ?thesis using Cons [of "w @ [c]"] by simp
  next
    case True
    have 1: "length (py_join [x] (py_split_from [] cs)) \<le> length cs"
      using Cons [of "[]"] by simp
    have 2: "length (py_join [x] (w # py_split_from [] cs)) \<le> length w + 1 + length cs"
      using py_join_cons_length [of x w "py_split_from [] cs"] 1 by linarith
    show ?thesis
    proof (cases "w = []")
      case True
      then show ?thesis using \<open>isspace c\<close> 1 by simp
    next
      case False
      then show ?thesis using \<open>isspace c\<close> 2 by simp
    qed
  qed
qed

lemma fold_smart_quotes_length: "length (fold_smart_quotes t) = length t"
  by (simp add: fold_smart_quotes_def py_replace_char_def)

lemma clean_text_length: "length (clean_text t) \<le> length t"
proof (cases "t = []")
  case True
  then show ?thesis by (simp add: clean_text_def)
next
  case False
  define u where "u = py_strip (py_strip_char squote (py_strip_char dquote (py_strip (fold_smart_quotes t))))"
  have c: "clean_text t = py_join [32] (py_split_from [] u)"
    using False by (simp add: clean_text_def Let_def u_def py_split_def)
  have "length u \<le> length (py_strip_char squote (py_strip_char dquote (py_strip (fold_smart_quotes t))))"
    unfolding u_def by (rule py_strip_length)
  also have "\<dots> \<le> length (py_strip_char dquote (py_strip (fold_smart_quotes t)))"
    by (rule py_strip_char_length)
  also have "\<dots> \<le> length (py_strip (fold_smart_quotes t))"
    by (rule py_strip_char_length)
  also have "\<dots> \<le> length (fold_smart_quotes t)"
    by (rule py_strip_length)
  finally have "length u \<le> length t" by (simp add: fold_smart_quotes_length)
  then show ?thesis unfolding c using split_join_length [of 32 "[]" u] by simp
qed

lemma lazy_paren_length: "lazy_paren g t = Some r \<Longrightarrow> length r < length g + length t"
proof (induction t arbitrary: g)
  case Nil
  then show ?case by simp
next
  case (Cons c u)
  show ?case
  proof (cases "c \<noteq> newline \<and> \<not> startswith (ascii '')'') u")
    case True
    then have "lazy_paren (g @ [c]) u = Some r" using Cons.prems by simp
    from Cons.IH [OF this] show ?thesis by simp
  next
    case False
    then show ?thesis using Cons.prems by (auto split: if_splits)
  qed
qed

lemma null_match_length: "null_match v = Some inner \<Longrightarrow> length inner + 5 \<le> length v"
proof -
  assume m: "null_match v = Some inner"
  then obtain a b c d r where v: "v = a # b # c # d # r"
    by (auto simp: null_match_def split: list.splits)
  then obtain p t where d: "dropWhile isspace r = p # t" and l: "lazy_paren [] t = Some inner"
    using m by (auto simp: null_match_def split: list.splits if_splits)
  have "length (p # t) \<le> length r" using d length_dropWhile_le [of isspace r] by simp
  then show ?thesis using lazy_paren_length [OF l] v by simp
qed

lemma null_match_not_NO: "null_match v = Some inner \<Longrightarrow> \<not> upper_eq_NO v"
  by (drule null_match_length) (auto simp: upper_eq_NO_def split: list.splits)

lemma lazy_paren_shortest:
  "inner \<noteq> [] \<Longrightarrow> newline \<notin> set inner \<Longrightarrow> 41 \<notin> set (tl inner) \<Longrightarrow>
     lazy_paren g (inner @ 41 # after) = Some (g @ inner)"
proof (induction inner arbitrary: g)
  case Nil
  then show ?case by simp
next
  case (Cons c u)
  show ?case
  proof (cases u)
    case Nil
    then show ?thesis using Cons.prems by simp
  next
    case (Cons x u')
    then have "x \<noteq> 41" and "41 \<notin> set (tl u)" and "newline \<notin> set u" and "u \<noteq> []"
      using Cons.prems by auto
    then have "lazy_paren (g @ [c]) (u @ 41 # after) = Some ((g @ [c]) @ u)"
      using Cons.IH by simp
    then show ?thesis using Cons.prems Cons \<open>x \<noteq> 41\<close> by simp
  qed
qed

lemma null_match_shortest:
  assumes "(n = 78 \<or> n = 110) \<and> (u = 85 \<or> u = 117) \<and> (l1 = 76 \<or> l1 = 108) \<and> (l2 = 76 \<or> l2 = 108)"
    and "list_all isspace ws" and "inner \<noteq> []" and "newline \<notin> set inner" and "41 \<notin> set (tl inner)"
  shows "null_match ([n, u, l1, l2] @ ws @ [40] @ inner @ [41] @ after) = Some inner"
proof -
  have "\<not> isspace 40" by (simp add: isspace_def)
  then have "dropWhile isspace (ws @ 40 # inner @ 41 # after) = 40 # inner @ 41 # after"
    using assms(2) by (simp add: dropWhile_append3 list_all_iff)
  then show ?thesis
    using assms(1) lazy_paren_shortest [OF assms(3-5), of "[]" after]
    by (simp add: null_match_def)
qed

lemma split_words_no_space:
  "list_all (\<lambda>c. \<not> isspace c) w \<Longrightarrow>
     list_all (list_all (\<lambda>c. \<not> isspace c)) (py_split_from w s)"
  by (induction s arbitrary: w) simp_all

lemma py_join_set: "set (py_join sep xs) \<subseteq> set sep \<union> \<Union> (set ` set xs)"
  by (induction sep xs rule: py_join.induct) auto

lemma clean_text_no_newline: "newline \<notin> set (clean_text t)"
proof (cases "t = []")
  case True
  then show ?thesis by (simp add: clean_text_def)
next
  case False
  define u where "u = py_strip (py_strip_char squote (py_strip_char dquote (py_strip (fold_smart_quotes t))))"
  have c: "clean_text t = py_join [32] (py_split_from [] u)"
    using False by (simp add: clean_text_def Let_def u_def py_split_def)
  have w: "\<forall>x \<in> set (py_split_from [] u). \<forall>c \<in> set x. \<not> isspace c"
    using split_words_no_space [of "[]" u] by (simp add: list_all_iff)
  have n: "isspace newline" by (simp add: isspace_def newline_def)
  show ?thesis
  proof
    assume "newline \<in> set (clean_text t)"
    then have "newline \<in> set [32] \<union> \<Union> (set ` set (py_split_from [] u))"
      unfolding c using py_join_set [of "[32]" "py_split_from [] u"] by blast
    then show False using w n by (auto simp: newline_def)
  qed
qed

lemma null_match_row:
  assumes "row = cell # rest" and "list_ex (\<lambda>c. c \<noteq> []) row"
    and "marker_cell row = None" and "section_header (py_strip cell) = None"
    and "current_doc s = Some a" and "current_section s = Some sec"
    and "null_match (clean_text (py_strip cell)) = Some inner"
  shows "process_row n row s =
           (if clean_text inner = [] \<or> lower_eq_null (clean_text inner) then s
            else s\<lparr>heap := (heap s)
                   [a := (add_value sec (clean_text inner) (heap s ! a))
                      \<lparr>raw_rows := raw_rows (add_value sec (clean_text inner) (heap s ! a)) @
                                    [(n, sec, clean_text inner)]\<rparr>]\<rparr>) \<and>
         clean_text inner \<noteq> clean_text (py_strip cell)"
proof -
  have nm: "\<not> startswith (ascii ''Document ('') (clean_text (py_strip cell))"
    using assms(1-3) by (auto simp: marker_cell_def Let_def split: if_splits)
  have p: "process_row n row s = data_row n (py_strip cell) a sec s"
    using assms(1,2,4,5,6) nm by (simp add: process_row_def Let_def)
  have v: "data_value (py_strip cell) =
      (if clean_text inner = [] \<or> lower_eq_null (clean_text inner) then None else Some (clean_text inner))"
    using assms(7) null_match_not_NO [OF assms(7)] by (simp add: data_value_def Let_def)
  have "length (clean_text inner) < length (clean_text (py_strip cell))"
    using null_match_length [OF assms(7)] clean_text_length [of inner] by simp
  then have "clean_text inner \<noteq> clean_text (py_strip cell)" by auto
  then show ?thesis unfolding p by (simp add: data_row_def v Let_def)
qed

section \<open>The comparison of the validator\<close>

lemma field_issues_sets:
  "set orig \<noteq> set conv \<Longrightarrow>
     (set orig - set conv \<noteq> {} \<longrightarrow> FALTA f (set orig - set conv) \<in> set (field_issues f orig conv)) \<and>
     (set conv - set orig \<noteq> {} \<longrightarrow> EXTRA f (set conv - set orig) \<in> set (field_issues f orig conv)) \<and>
     (\<exists>x. FALTA f x \<in> set (field_issues f orig conv) \<or> EXTRA f x \<in> set (field_issues f orig conv))"
  by (auto simp: field_issues_def)

lemma field_issues_length:
  "length orig \<noteq> length conv \<Longrightarrow> Conteo f (length orig) (length conv) \<in> set (field_issues f orig conv)"
  by (simp add: field_issues_def)

lemma field_issues_duplicated: "field_issues f [x] [x, x] = [Conteo f 1 2]"
  by (simp add: field_issues_def)

lemma check_doc_fields:
  "set (field_issues Diagnostico (diagnostico orig) (diagnostico conv)) \<union>
   set (field_issues Cie10 (cie10 orig) (cie10 conv)) \<union>
   set (field_issues Medicamentos (medicamentos orig) (medicamentos conv)) \<union>
   set (field_issues Consultas (consultas orig) (consultas conv)) \<subseteq> set (check_doc orig conv)"
  by (auto simp: check_doc_def)

lemma validate_docs_discrepancies:
  "discrepancies (validate_docs i ps v) =
     discrepancies v @ map (\<lambda>(a, b). (document_id a, check_doc a b)) (filter (\<lambda>(a, b). check_doc a b \<noteq> []) ps)"
  by (induction i ps v rule: validate_docs.induct) (simp_all add: Let_def)

lemma validate_docs_all_valid:
  "all_valid (validate_docs i ps v) \<longleftrightarrow> all_valid v \<and> list_all (\<lambda>(a, b). check_doc a b = []) ps"
  by (induction i ps v rule: validate_docs.induct) (auto simp: Let_def)

lemma validate_docs_step:
  "validate_docs i ((a, b) # ps) v =
     validate_docs (Suc i) ps
       (if check_doc a b \<noteq> []
        then v\<lparr>all_valid := False,
               discrepancies := discrepancies v @ [(document_id a, check_doc a b)],
               printed := printed v @ Documento_error (Suc i) (document_id a) # map Issue (check_doc a b)\<rparr>
        else v\<lparr>printed := printed v @ [Documento_OK (Suc i) (document_id a)]\<rparr>)"
  by (simp add: Let_def)

lemma validate_docs_printed_mono:
  "set (printed v) \<subseteq> set (printed (validate_docs i ps v))"
proof (induction ps arbitrary: i v)
  case Nil
  then show ?case by simp
next
  case (Cons p ps)
  obtain a b where p: "p = (a, b)" by (cases p)
  show ?case
  proof (cases "check_doc a b = []")
    case True
    let ?v = "v\<lparr>printed := printed v @ [Documento_OK (Suc i) (document_id a)]\<rparr>"
    have 1: "set (printed v) \<subseteq> set (printed ?v)" by auto
    have 2: "set (printed ?v) \<subseteq> set (printed (validate_docs (Suc i) ps ?v))" by (rule Cons)
    have e: "validate_docs i (p # ps) v = validate_docs (Suc i) ps ?v"
      unfolding p validate_docs_step using True by simp
    show ?thesis unfolding e by (rule subset_trans [OF 1 2])
  next
    case False
    let ?v = "v\<lparr>all_valid := False,
               discrepancies := discrepancies v @ [(document_id a, check_doc a b)],
               printed := printed v @ Documento_error (Suc i) (document_id a) # map Issue (check_doc a b)\<rparr>"
    have 1: "set (printed v) \<subseteq> set (printed ?v)" by auto
    have 2: "set (printed ?v) \<subseteq> set (printed (validate_docs (Suc i) ps ?v))" by (rule Cons)
    have e: "validate_docs i (p # ps) v = validate_docs (Suc i) ps ?v"
      unfolding p validate_docs_step using False by simp
    show ?thesis unfolding e by (rule subset_trans [OF 1 2])
  qed
qed

lemma validate_docs_printed:
  "(a, b) \<in> set ps \<Longrightarrow> x \<in> set (check_doc a b) \<Longrightarrow> Issue x \<in> set (printed (validate_docs i ps v))"
proof (induction ps arbitrary: i v)
  case Nil
  then show ?case by simp
next
  case (Cons p ps)
  show ?case
  proof (cases "(a, b) = p")
    case True
    let ?v = "v\<lparr>all_valid := False,
               discrepancies := discrepancies v @ [(document_id a, check_doc a b)],
               printed := printed v @ Documento_error (Suc i) (document_id a) # map Issue (check_doc a b)\<rparr>"
    have ne: "check_doc a b \<noteq> []" using Cons.prems(2) by auto
    have e: "validate_docs i (p # ps) v = validate_docs (Suc i) ps ?v"
      unfolding True [symmetric] validate_docs_step using ne by simp
    have "Issue x \<in> set (printed ?v)" using Cons.prems(2) by simp
    then show ?thesis unfolding e using validate_docs_printed_mono [of ?v "Suc i" ps] by (rule set_mp [rotated])
  next
    case False
    then have m: "(a, b) \<in> set ps" using Cons.prems(1) by auto
    obtain a' b' where p: "p = (a', b')" by (cases p)
    show ?thesis unfolding p validate_docs_step by (rule Cons.IH [OF m Cons.prems(2)])
  qed
qed

lemma validate_run_aggregates:
  assumes "decode_flat_csv csv = Inr conv" and "length orig = length conv"
  shows "\<exists>v. validate_run orig csv = Inr v \<and>
           discrepancies v = map (\<lambda>(a, b). (document_id a, check_doc a b))
                               (filter (\<lambda>(a, b). check_doc a b \<noteq> []) (zip orig conv)) \<and>
           (all_valid v \<longleftrightarrow> discrepancies v = []) \<and>
           (\<forall>i < length orig. \<forall>x \<in> set (check_doc (orig ! i) (conv ! i)). Issue x \<in> set (printed v))"
proof -
  let ?v0 = "\<lparr>all_valid = True, discrepancies = [], printed = [Paso3, Conteo_OK (length orig)]\<rparr>"
  let ?w = "validate_docs 0 (zip orig conv) ?v0"
  let ?v = "?w\<lparr>printed := printed ?w @
              [Blank, if all_valid ?w then Validacion_exitosa else Validacion_fallida (length (discrepancies ?w))]\<rparr>"
  have r: "validate_run orig csv = Inr ?v"
    using assms by (simp add: validate_run_def bind_err_def Let_def)
  have d: "discrepancies ?v = map (\<lambda>(a, b). (document_id a, check_doc a b))
                               (filter (\<lambda>(a, b). check_doc a b \<noteq> []) (zip orig conv))"
    by (simp add: validate_docs_discrepancies)
  have a: "all_valid ?v \<longleftrightarrow> discrepancies ?v = []"
    by (auto simp: validate_docs_all_valid validate_docs_discrepancies list_all_iff filter_empty_conv)
  have p: "Issue x \<in> set (printed ?v)" if "i < length orig" "x \<in> set (check_doc (orig ! i) (conv ! i))" for i x
  proof -
    have "(orig ! i, conv ! i) \<in> set (zip orig conv)"
      using that(1) assms(2) by (metis in_set_zip fst_conv snd_conv)
    then have "Issue x \<in> set (printed ?w)"
      using that(2) by (rule validate_docs_printed)
    then show ?thesis by simp
  qed
  show ?thesis using r d a p by blast
qed

lemma scenario_E_decode:
  "decode_flat_csv (convert_to_flat_csv (ascii ''2024.01.02'')
       [(new_doc (ascii ''a.pdf''))\<lparr>cie10 := [ascii ''J18'', ascii ''J18'']\<rparr>])
   = Inr [\<lparr>document_id = ascii ''a.pdf'', diagnostico = [], cie10 = [ascii ''J18'', ascii ''J18''],
           destino_alta = [], medicamentos = [], consultas = []\<rparr>]"
  by (simp add: new_doc_def encoder_eval decoder_eval string_eval)

section \<open>Quoting and splitting\<close>

lemma replace_doubled_cons:
  "c \<noteq> dquote \<Longrightarrow> replace_doubled (c # r) = c # replace_doubled r"
  by (cases r) simp_all

lemma replace_doubled_inverse:
  "replace_doubled (concat (map (\<lambda>c. if c = dquote then [dquote, dquote] else [c]) x)) = x"
  by (induction x) (simp_all add: replace_doubled_cons)

lemma split_on_first:
  "sep \<notin> set xs \<Longrightarrow> split_on sep w (xs @ sep # ys) = (w @ xs) # split_on sep [] ys"
  by (induction xs arbitrary: w) auto

section \<open>What the validator returns, and what main does with it\<close>

lemma field_issues_empty:
  "field_issues f orig conv = [] \<longleftrightarrow> set orig = set conv \<and> length orig = length conv"
  by (auto simp: field_issues_def)

lemma check_doc_empty:
  "check_doc orig conv = [] \<longleftrightarrow>
     document_id orig = document_id conv \<and> destino_alta orig = destino_alta conv \<and>
     set (diagnostico orig) = set (diagnostico conv) \<and> length (diagnostico orig) = length (diagnostico conv) \<and>
     set (cie10 orig) = set (cie10 conv) \<and> length (cie10 orig) = length (cie10 conv) \<and>
     set (medicamentos orig) = set (medicamentos conv) \<and> length (medicamentos orig) = length (medicamentos conv) \<and>
     set (consultas orig) = set (consultas conv) \<and> length (consultas orig) = length (consultas conv)"
  unfolding check_doc_def append_is_Nil_conv field_issues_empty by auto

lemma validate_conversion_true:
  assumes "validate_conversion orig csv = Inr True"
  shows "\<exists>conv. decode_flat_csv csv = Inr conv \<and> length conv = length orig \<and>
           (\<forall>i < length orig. check_doc (orig ! i) (conv ! i) = [])"
proof -
  obtain conv where c: "decode_flat_csv csv = Inr conv"
    using assms by (cases "decode_flat_csv csv") (simp_all add: validate_conversion_def validate_run_def bind_err_def)
  have l: "length orig = length conv"
    using assms c by (auto simp: validate_conversion_def validate_run_def bind_err_def Let_def split: if_splits)
  then have "all_valid (validate_docs 0 (zip orig conv)
      \<lparr>all_valid = True, discrepancies = [], printed = [Paso3, Conteo_OK (length orig)]\<rparr>)"
    using assms c by (simp add: validate_conversion_def validate_run_def bind_err_def Let_def)
  then have a: "list_all (\<lambda>(a, b). check_doc a b = []) (zip orig conv)"
    by (simp add: validate_docs_all_valid)
  have "check_doc (orig ! i) (conv ! i) = []" if "i < length orig" for i
  proof -
    have "(orig ! i, conv ! i) \<in> set (zip orig conv)"
      using that l by (metis in_set_zip fst_conv snd_conv)
    then show ?thesis using a by (auto simp: list_all_iff)
  qed
  then show ?thesis using c l by simp
qed

lemma validate_conversion_run:
  "validate_conversion orig csv = Inr b \<longleftrightarrow> (\<exists>v. validate_run orig csv = Inr v \<and> all_valid v = b)"
  by (cases "validate_run orig csv") (auto simp: validate_conversion_def bind_err_def)

lemma validate_run_printed:
  assumes "validate_run orig csv = Inr v" and "(i, xs) \<in> set (discrepancies v)" and "x \<in> set xs"
  shows "Issue x \<in> set (printed v)"
proof -
  obtain conv where c: "decode_flat_csv csv = Inr conv"
    using assms(1) by (cases "decode_flat_csv csv") (simp_all add: validate_run_def bind_err_def)
  show ?thesis
  proof (cases "length orig = length conv")
    case False
    then have "discrepancies v = []"
      using assms(1) c by (auto simp: validate_run_def bind_err_def)
    then show ?thesis using assms(2) by simp
  next
    case True
    let ?w = "validate_docs 0 (zip orig conv)
                \<lparr>all_valid = True, discrepancies = [], printed = [Paso3, Conteo_OK (length orig)]\<rparr>"
    have v: "v = ?w\<lparr>printed := printed ?w @
              [Blank, if all_valid ?w then Validacion_exitosa else Validacion_fallida (length (discrepancies ?w))]\<rparr>"
      using assms(1) c True by (auto simp: validate_run_def bind_err_def Let_def)
    have "discrepancies v = map (\<lambda>(a, b). (document_id a, check_doc a b))
                               (filter (\<lambda>(a, b). check_doc a b \<noteq> []) (zip orig conv))"
      unfolding v by (simp add: validate_docs_discrepancies)
    then obtain a b where ab: "(a, b) \<in> set (zip orig conv)" and xs: "xs = check_doc a b"
      using assms(2) by auto
    have "Issue x \<in> set (printed ?w)"
      using ab assms(3) unfolding xs by (rule validate_docs_printed)
    then show ?thesis unfolding v by simp
  qed
qed

lemma main_not_valid:
  assumes "validate_run (parse_hierarchical_csv rows)
             (convert_to_flat_csv version_convert (parse_hierarchical_csv rows)) = Inr v"
    and "\<not> all_valid v" and "parse_hierarchical_csv rows \<noteq> []"
  shows "main True rows version_convert version =
           \<lparr>effects = [Mkdir OUTPUT_DIR],
            console = [Titulo, Rutas] @ parse_printed rows @
                      convert_printed version_convert (parse_hierarchical_csv rows) @ printed v @ [Bloqueado],
            raised = None\<rparr>"
  using assms by (simp add: main_def Let_def)

lemma main_effects:
  "effects (main input_exists rows version_convert version) =
     Mkdir OUTPUT_DIR #
     (if input_exists \<and> parse_hierarchical_csv rows \<noteq> [] \<and>
         validate_conversion (parse_hierarchical_csv rows)
           (convert_to_flat_csv version_convert (parse_hierarchical_csv rows)) = Inr True
      then [Mkdir (Version_dir version),
            Write (Csv_output_path version)
              (Flat_csv (convert_to_flat_csv version_convert (parse_hierarchical_csv rows))),
            Write (Json_output_path version) (Debug_json (parse_hierarchical_csv rows)),
            Write Pointer_path
              (Latest_pointer version (convert_to_flat_csv version_convert (parse_hierarchical_csv rows)))]
      else [])"
  by (cases "validate_run (parse_hierarchical_csv rows)
               (convert_to_flat_csv version_convert (parse_hierarchical_csv rows))")
     (auto simp: main_def Let_def validate_conversion_def bind_err_def)

section \<open>Two runs\<close>

lemma sample_parsed:
  "parse_hierarchical_csv
     [[ascii ''Document (1): informe.pdf''], [ascii ''CIE-10:''], [ascii ''J18.9''],
      [ascii ''Destino al alta:''], [ascii ''Domicilio'']]
   = [\<lparr>document_id = ascii ''informe.pdf'', diagnostico = [], cie10 = [ascii ''J18.9''],
        destino_alta = ascii ''Domicilio'', medicamentos = [], consultas = [],
        raw_rows = [(3, Cie10, ascii ''J18.9''), (5, Destino_alta, ascii ''Domicilio'')]\<rparr>]"
  by (simp add: string_eval regex_eval parser_eval)

lemma sample_decoded:
  "decode_flat_csv (convert_to_flat_csv (ascii ''2024.01.02'')
     [\<lparr>document_id = ascii ''informe.pdf'', diagnostico = [], cie10 = [ascii ''J18.9''],
        destino_alta = ascii ''Domicilio'', medicamentos = [], consultas = [],
        raw_rows = [(3, Cie10, ascii ''J18.9''), (5, Destino_alta, ascii ''Domicilio'')]\<rparr>])
   = Inr [\<lparr>document_id = ascii ''informe.pdf'', diagnostico = [], cie10 = [ascii ''J18.9''],
           destino_alta = ascii ''Domicilio'', medicamentos = [], consultas = []\<rparr>]"
  by (simp add: encoder_eval decoder_eval string_eval)

lemma sample_valid:
  "validate_conversion
     (parse_hierarchical_csv
        [[ascii ''Document (1): informe.pdf''], [ascii ''CIE-10:''], [ascii ''J18.9''],
         [ascii ''Destino al alta:''], [ascii ''Domicilio'']])
     (convert_to_flat_csv (ascii ''2024.01.02'')
        (parse_hierarchical_csv
           [[ascii ''Document (1): informe.pdf''], [ascii ''CIE-10:''], [ascii ''J18.9''],
            [ascii ''Destino al alta:''], [ascii ''Domicilio'']])) = Inr True"
  unfolding sample_parsed validate_conversion_def validate_run_def sample_decoded
  by (simp add: bind_err_def check_doc_def field_issues_def)

lemma rejected_parsed:
  "parse_hierarchical_csv [[ascii ''Document (1): a'' @ [34, 39, 34, 39]]] = [new_doc [97, 34]]"
  by (simp add: string_eval regex_eval parser_eval)

lemma rejected_decoded:
  "decode_flat_csv (convert_to_flat_csv (ascii ''2024.01.02'') [new_doc [97, 34]])
   = Inr [\<lparr>document_id = [97], diagnostico = [], cie10 = [], destino_alta = [],
           medicamentos = [], consultas = []\<rparr>]"
  by (simp add: new_doc_def encoder_eval decoder_eval string_eval)

lemma rejected_run:
  "validate_run [new_doc [97, 34]] (convert_to_flat_csv (ascii ''2024.01.02'') [new_doc [97, 34]])
   = Inr \<lparr>all_valid = False, discrepancies = [([97, 34], [Document_ID [97, 34] [97]])],
          printed = [Paso3, Conteo_OK 1, Documento_error 1 [97, 34], Issue (Document_ID [97, 34] [97]),
                     Blank, Validacion_fallida 1]\<rparr>"
  unfolding validate_run_def rejected_decoded
  by (simp add: bind_err_def check_doc_def field_issues_def new_doc_def)

section \<open>C8: what clean\_text strips\<close>

text \<open>
  The specification's normalizer strips one layer of enclosing quotes. On a text in two
  layers of double quotes it keeps the inner layer, and \<open>clean_text\<close> does not:
  \<open>strip('"')\<close> takes every double quote at either end.
\<close>

theorem clean_text_one_layer_counterexample:
  "clean_text [34, 34, 97, 34, 34] = [97] \<and> spec_normalize [34, 34, 97, 34, 34] = [34, 97, 34]"
  by (simp add: string_eval spec_normalize_def spec_strip_one_layer_def is_quote_def)

text \<open>
  C8, amended. For every input text, after folding the smart quotes and before collapsing
  the runs of whitespace, \<open>clean_text\<close> trims whitespace, then removes every leading and
  trailing double quote (what goes is double quotes only, and none is left at either end),
  then every leading and trailing single quote (likewise), then trims again. In particular
  the text \<open>'"a"'\<close>, in a layer of single quotes around a layer of double quotes, keeps
  its inner layer: the double quotes are not at the ends when they are looked for.
\<close>

theorem clean_text_strips_all_quotes:
  "let s = py_strip (fold_smart_quotes text);
       s1 = py_strip_char dquote s;
       u = py_strip_char squote s1
   in (\<exists>a d. s = replicate a dquote @ s1 @ replicate d dquote) \<and>
      \<not> prefix [dquote] s1 \<and> \<not> suffix [dquote] s1 \<and>
      (\<exists>b c. s1 = replicate b squote @ u @ replicate c squote) \<and>
      \<not> prefix [squote] u \<and> \<not> suffix [squote] u \<and>
      clean_text text = py_join (ascii '' '') (py_split (py_strip u)) \<and>
      clean_text [39, 34, 97, 34, 39] = [34, 97, 34]"
proof -
  have e: "clean_text [] = py_join (ascii '' '') (py_split (py_strip (py_strip_char squote (py_strip_char dquote (py_strip (fold_smart_quotes []))))))"
    by (simp add: string_eval)
  have c: "clean_text text = py_join (ascii '' '') (py_split (py_strip (py_strip_char squote (py_strip_char dquote (py_strip (fold_smart_quotes text))))))"
    using e by (cases "text = []") (simp_all add: clean_text_def Let_def)
  have x: "clean_text [39, 34, 97, 34, 39] = [34, 97, 34]"
    by (simp add: string_eval)
  show ?thesis
    unfolding Let_def
    using strip_char_decomp strip_char_no_prefix strip_char_no_suffix c x by blast
qed

section \<open>C6: the list fields hold no value twice\<close>

text \<open>
  C6. In every document the parser returns, each of the four list fields (\<open>diagnostico\<close>,
  \<open>cie10\<close>, \<open>medicamentos\<close>, \<open>consultas\<close>) holds no value twice. And whatever the state,
  a row leaves each list field of each dictionary of the store as it is or appends one value
  at its end, which is then the value of that data row (normalized, a \<open>Null(...)\<close> wrapper
  removed) and was not in the list: a value already present is never appended again, and
  the values stay in the order of their insertion.
\<close>

theorem parsed_lists_distinct:
  "(\<forall>d \<in> set (parse_hierarchical_csv rows).
      distinct (diagnostico d) \<and> distinct (cie10 d) \<and> distinct (medicamentos d) \<and> distinct (consultas d)) \<and>
   (\<forall>b < length (heap s). \<forall>sec.
      list_field sec (heap (process_row n row s) ! b) = list_field sec (heap s ! b) \<or>
      (\<exists>cell rest v. row = cell # rest \<and> data_value (py_strip cell) = Some v \<and>
          v \<notin> set (list_field sec (heap s ! b)) \<and>
          list_field sec (heap (process_row n row s) ! b) = list_field sec (heap s ! b) @ [v]))"
proof -
  have "\<forall>d \<in> set (parse_hierarchical_csv rows). distinct_fields d"
    using parsed_in_heap [of rows] parse_state_invariant [of rows] by (auto simp: list_all_iff)
  then show ?thesis using process_row_list_field by (simp add: distinct_fields_def)
qed

theorem parsed_lists_distinct_witness:
  "map cie10 (parse_hierarchical_csv
       [[ascii ''Document (1): a''], [ascii ''CIE-10:''], [ascii ''J18''], [ascii ''J18''],
        [ascii ''Null(J18)''], [ascii ''E11'']]) = [[ascii ''J18'', ascii ''E11'']] \<and>
   list_all (\<lambda>d. distinct (cie10 d)) (parse_hierarchical_csv
       [[ascii ''Document (1): a''], [ascii ''CIE-10:''], [ascii ''J18''], [ascii ''J18''],
        [ascii ''Null(J18)''], [ascii ''E11'']]) \<and>
   0 < length (heap (parse_rows 1 [[ascii ''Document (1): a''], [ascii ''CIE-10:'']] init_state)) \<and>
   list_field Cie10 (heap (process_row 3 [ascii ''J18'']
       (parse_rows 1 [[ascii ''Document (1): a''], [ascii ''CIE-10:'']] init_state)) ! 0) = [ascii ''J18'']"
  using parsed_lists_distinct
    [of "[[ascii ''Document (1): a''], [ascii ''CIE-10:''], [ascii ''J18''], [ascii ''J18''],
          [ascii ''Null(J18)''], [ascii ''E11'']]"
        "parse_rows 1 [[ascii ''Document (1): a''], [ascii ''CIE-10:'']] init_state" 3 "[ascii ''J18'']"]
  by (simp add: string_eval regex_eval parser_eval list_field_def)

section \<open>C3: sealed documents and extracted markers\<close>

text \<open>
  C3 says that the parser returns as many documents as there are marker rows with an
  extracted identifier, none sealed twice. A marker row whose extraction fails appends
  the current dictionary to \<open>documents\<close> (line 78) and leaves it current, so the next
  marker row or the end of the input appends it again. On the two rows
  \<open>Document (1): a\<close> and \<open>Document (x): b\<close> one identifier is extracted and two documents
  are returned, the same dictionary twice. On an input with no such row the two numbers
  are equal.
\<close>

theorem sealed_twice:
  "parse_hierarchical_csv [[ascii ''Document (1): a''], [ascii ''Document (x): b'']]
     = [new_doc (ascii ''a''), new_doc (ascii ''a'')] \<and>
   length (parse_hierarchical_csv [[ascii ''Document (1): a''], [ascii ''Document (x): b'']]) = 2 \<and>
   length (filter marker_extracted [[ascii ''Document (1): a''], [ascii ''Document (x): b'']]) = 1 \<and>
   (list_all (\<lambda>row. \<not> marker_failed row) rows \<longrightarrow>
      length (parse_hierarchical_csv rows) = length (filter marker_extracted rows))"
proof -
  have f: "length (documents (finish s)) = length (documents s) + (case current_doc s of None \<Rightarrow> 0 | Some a \<Rightarrow> 1)" for s
    by (cases "current_doc s") (simp_all add: finish_def)
  have "length (parse_hierarchical_csv rows) = length (filter marker_extracted rows)"
    if "list_all (\<lambda>row. \<not> marker_failed row) rows"
    using parse_rows_count [OF that, of 1 init_state]
    by (simp add: parse_hierarchical_csv_def parse_state_def Let_def f init_state_def)
  moreover have "parse_hierarchical_csv [[ascii ''Document (1): a''], [ascii ''Document (x): b'']]
     = [new_doc (ascii ''a''), new_doc (ascii ''a'')] \<and>
   length (parse_hierarchical_csv [[ascii ''Document (1): a''], [ascii ''Document (x): b'']]) = 2 \<and>
   length (filter marker_extracted [[ascii ''Document (1): a''], [ascii ''Document (x): b'']]) = 1"
    by (simp add: string_eval regex_eval parser_eval marker_extracted_def extraction_def marker_cell_def)
  ultimately show ?thesis by blast
qed

theorem sealed_twice_witness:
  "list_all (\<lambda>row. \<not> marker_failed row) [[ascii ''Document (1): a''], [ascii ''CIE-10:''], [ascii ''Document (2): b'']] \<and>
   length (parse_hierarchical_csv [[ascii ''Document (1): a''], [ascii ''CIE-10:''], [ascii ''Document (2): b'']]) = 2 \<and>
   length (filter marker_extracted [[ascii ''Document (1): a''], [ascii ''CIE-10:''], [ascii ''Document (2): b'']]) = 2"
  using sealed_twice [of "[[ascii ''Document (1): a''], [ascii ''CIE-10:''], [ascii ''Document (2): b'']]"]
  by (simp add: string_eval regex_eval marker_extracted_def marker_failed_def is_marker_def extraction_def marker_cell_def)

section \<open>C4: a marker row whose extraction fails\<close>

text \<open>
  As stated, C4 has the row treated as a blank one: nothing sealed, and the failure logged.
  With a document open, the row \<open>Document (x): b\<close> appends that document to \<open>documents\<close>,
  where a blank row changes nothing; and the parser prints the header and the count only.
\<close>

theorem failed_marker_seals_counterexample:
  "marker_failed [ascii ''Document (x): b''] \<and>
   current_doc (process_row 1 [ascii ''Document (1): a''] init_state) = Some 0 \<and>
   documents (process_row 1 [ascii ''Document (1): a''] init_state) = [] \<and>
   documents (process_row 2 [ascii ''Document (x): b''] (process_row 1 [ascii ''Document (1): a''] init_state)) = [0] \<and>
   process_row 2 [] (process_row 1 [ascii ''Document (1): a''] init_state)
     = process_row 1 [ascii ''Document (1): a''] init_state \<and>
   parse_printed [[ascii ''Document (x): b'']] = [Paso1, Parseados 0]"
  by (simp add: string_eval regex_eval parser_eval parse_printed_def marker_failed_def is_marker_def
      extraction_def marker_cell_def)

text \<open>
  C4, amended. For every row that is a document marker whose extraction fails: no
  dictionary is created, the current document and the current section are unchanged, the
  loop goes on with the next row, and nothing is printed for the row: the parser prints its
  header, the number of documents returned and one summary for each of them.
\<close>

theorem failed_marker_keeps_state:
  "marker_failed row \<Longrightarrow>
     heap (process_row n row s) = heap s \<and>
     current_doc (process_row n row s) = current_doc s \<and>
     current_section (process_row n row s) = current_section s \<and>
     parse_rows n (row # rows) s = parse_rows (Suc n) rows (process_row n row s) \<and>
     parse_printed (row # rows) =
       Paso1 # Parseados (length (parse_hierarchical_csv (row # rows))) #
       map (\<lambda>d. Resumen (document_id d) (length (diagnostico d)) (length (cie10 d))
                   (destino_alta d) (length (medicamentos d)) (length (consultas d)))
           (parse_hierarchical_csv (row # rows))"
  by (simp add: process_row_failed parse_printed_def Let_def)

theorem failed_marker_keeps_state_witness:
  "marker_failed [ascii ''Document (x): b''] \<and>
   current_doc (process_row 2 [ascii ''Document (x): b''] (process_row 1 [ascii ''Document (1): a''] init_state)) = Some 0 \<and>
   current_section (process_row 2 [ascii ''Document (x): b''] (process_row 1 [ascii ''Document (1): a''] init_state)) = None"
  using failed_marker_keeps_state [of "[ascii ''Document (x): b'']" 2 "process_row 1 [ascii ''Document (1): a''] init_state" "[]"]
  by (simp add: string_eval regex_eval parser_eval marker_failed_def is_marker_def extraction_def marker_cell_def)

section \<open>C9: where a document identifier comes from\<close>

text \<open>
  As stated, C9 has every document identifier non-empty. The marker row with the first
  cell \<open>Document (1): ""'\<close> is cleaned to \<open>Document (1): ""\<close>, the pattern matches with the
  group \<open>"\<close>, and cleaning the group leaves the empty string as the identifier.
\<close>

theorem document_id_empty_counterexample:
  "map document_id (parse_hierarchical_csv [[ascii ''Document (1): '' @ [34, 34, 39]]]) = [[]]"
  by (simp add: string_eval regex_eval parser_eval)

text \<open>
  C9, amended. The identifier of every document the parser returns is the cleaned group
  extracted from a marker row of the input, which can be the empty string; and for every
  marker row whose extraction fails no dictionary is created: the store is unchanged.
\<close>

theorem document_id_from_marker:
  "(\<forall>d \<in> set (parse_hierarchical_csv rows).
      \<exists>row \<in> set rows. \<exists>g. extraction row = Some g \<and> document_id d = clean_text g) \<and>
   (\<forall>n row s. marker_failed row \<longrightarrow> heap (process_row n row s) = heap s)"
proof -
  have h: "heap (finish s) = heap s" for s
    by (auto simp: finish_def split: option.splits)
  have "document_id ` set (heap (parse_state rows)) \<subseteq>
      {clean_text g | g row. row \<in> set rows \<and> extraction row = Some g}"
    using parse_rows_ids [of 1 rows init_state] by (simp add: parse_state_def h init_state_def)
  then have "\<forall>d \<in> set (parse_hierarchical_csv rows).
      \<exists>row \<in> set rows. \<exists>g. extraction row = Some g \<and> document_id d = clean_text g"
    using parsed_in_heap [of rows] by blast
  then show ?thesis by (simp add: process_row_failed)
qed

theorem document_id_from_marker_witness:
  "map document_id (parse_hierarchical_csv [[ascii ''Document (1): a.pdf''], [ascii ''Document (x): b'']])
     = [ascii ''a.pdf'', ascii ''a.pdf''] \<and>
   extraction [ascii ''Document (1): a.pdf''] = Some (ascii ''a.pdf'') \<and>
   marker_failed [ascii ''Document (x): b''] \<and>
   heap (process_row 2 [ascii ''Document (x): b''] (process_row 1 [ascii ''Document (1): a.pdf''] init_state))
     = heap (process_row 1 [ascii ''Document (1): a.pdf''] init_state)"
  using document_id_from_marker [of "[[ascii ''Document (1): a.pdf''], [ascii ''Document (x): b'']]"]
  by (simp add: string_eval regex_eval parser_eval marker_failed_def is_marker_def extraction_def marker_cell_def)

section \<open>C7: the Null wrapper\<close>

text \<open>
  C7 says that a data row whose cleaned value matches \<open>Null(<inner>)\<close> gives the current
  section exactly the cleaned inner text, never the wrapper. The pattern of line 122 takes
  the shortest non-empty text that a closing parenthesis follows, and is not anchored at the
  end of the value. So \<open>Null(Amoxicilina (500mg))\<close>, whose inner text is
  \<open>Amoxicilina (500mg)\<close>, gives \<open>Amoxicilina (500mg\<close>; \<open>Null()\<close>, whose inner text is empty,
  is not matched and is stored as it stands, wrapper and all; and what follows the first
  closing parenthesis is dropped. In general, for a data row processed with a document open
  and a section selected whose cleaned value is the word in either case, whitespace or none,
  an opening parenthesis, a non-empty text with no closing parenthesis after its first code
  point, a closing parenthesis and anything after it: the value given to the section and
  recorded in \<open>raw_rows\<close> is that text, cleaned (nothing, when it is then empty or
  \<open>null\<close>), and never the value itself. The claim therefore holds of every wrapper whose
  inner text is not empty and holds no closing parenthesis.
\<close>

theorem null_wrapper_first_parenthesis:
  "spec_null_inner (clean_text (py_strip (ascii ''Null(Amoxicilina (500mg))''))) = Some (ascii ''Amoxicilina (500mg)'') \<and>
   data_value (py_strip (ascii ''Null(Amoxicilina (500mg))'')) = Some (ascii ''Amoxicilina (500mg'') \<and>
   spec_null_inner (clean_text (py_strip (ascii ''Null()''))) = Some [] \<and>
   data_value (py_strip (ascii ''Null()'')) = Some (ascii ''Null()'') \<and>
   map medicamentos (parse_hierarchical_csv
       [[ascii ''Document (1): a''], [ascii ''Medicamentos:''], [ascii ''Null(Amoxicilina (500mg))''],
        [ascii ''Null()''], [ascii ''Null(Paracetamol) 500mg cada 8h'']])
     = [[ascii ''Amoxicilina (500mg'', ascii ''Null()'', ascii ''Paracetamol'']] \<and>
   (row = cell # rest \<and> list_ex (\<lambda>c. c \<noteq> []) row \<and> marker_cell row = None \<and>
    section_header (py_strip cell) = None \<and> current_doc s = Some a \<and> current_section s = Some sec \<and>
    clean_text (py_strip cell) = [n, u, l1, l2] @ ws @ [40] @ inner @ [41] @ after \<and>
    (n = 78 \<or> n = 110) \<and> (u = 85 \<or> u = 117) \<and> (l1 = 76 \<or> l1 = 108) \<and> (l2 = 76 \<or> l2 = 108) \<and>
    list_all isspace ws \<and> inner \<noteq> [] \<and> 41 \<notin> set (tl inner) \<longrightarrow>
      process_row k row s =
        (if clean_text inner = [] \<or> lower_eq_null (clean_text inner) then s
         else s\<lparr>heap := (heap s)
                [a := (add_value sec (clean_text inner) (heap s ! a))
                   \<lparr>raw_rows := raw_rows (add_value sec (clean_text inner) (heap s ! a)) @
                                 [(k, sec, clean_text inner)]\<rparr>]\<rparr>) \<and>
      clean_text inner \<noteq> clean_text (py_strip cell))"
proof -
  have e1: "spec_null_inner (clean_text (py_strip (ascii ''Null(Amoxicilina (500mg))''))) = Some (ascii ''Amoxicilina (500mg)'')"
    by (simp add: string_eval spec_null_inner_def)
  have e2: "data_value (py_strip (ascii ''Null(Amoxicilina (500mg))'')) = Some (ascii ''Amoxicilina (500mg'')"
    by (simp add: string_eval regex_eval data_value_def)
  have e3: "spec_null_inner (clean_text (py_strip (ascii ''Null()''))) = Some []"
    by (simp add: string_eval spec_null_inner_def)
  have e4: "data_value (py_strip (ascii ''Null()'')) = Some (ascii ''Null()'')"
    by (simp add: string_eval regex_eval data_value_def)
  have e5: "map medicamentos (parse_hierarchical_csv
       [[ascii ''Document (1): a''], [ascii ''Medicamentos:''], [ascii ''Null(Amoxicilina (500mg))''],
        [ascii ''Null()''], [ascii ''Null(Paracetamol) 500mg cada 8h'']])
     = [[ascii ''Amoxicilina (500mg'', ascii ''Null()'', ascii ''Paracetamol'']]"
    by (simp add: string_eval regex_eval parser_eval)
  have g: "process_row k row s =
        (if clean_text inner = [] \<or> lower_eq_null (clean_text inner) then s
         else s\<lparr>heap := (heap s)
                [a := (add_value sec (clean_text inner) (heap s ! a))
                   \<lparr>raw_rows := raw_rows (add_value sec (clean_text inner) (heap s ! a)) @
                                 [(k, sec, clean_text inner)]\<rparr>]\<rparr>) \<and>
      clean_text inner \<noteq> clean_text (py_strip cell)"
    if r: "row = cell # rest" "list_ex (\<lambda>c. c \<noteq> []) row" "marker_cell row = None"
       "section_header (py_strip cell) = None" "current_doc s = Some a" "current_section s = Some sec"
      and v: "clean_text (py_strip cell) = [n, u, l1, l2] @ ws @ [40] @ inner @ [41] @ after"
      and l: "(n = 78 \<or> n = 110) \<and> (u = 85 \<or> u = 117) \<and> (l1 = 76 \<or> l1 = 108) \<and> (l2 = 76 \<or> l2 = 108)"
      and w: "list_all isspace ws" "inner \<noteq> []" "41 \<notin> set (tl inner)"
  proof -
    have "newline \<notin> set (clean_text (py_strip cell))" by (rule clean_text_no_newline)
    then have "newline \<notin> set inner" unfolding v by simp
    then have "null_match (clean_text (py_strip cell)) = Some inner"
      unfolding v using l w by (intro null_match_shortest) simp_all
    then show ?thesis using r by (rule null_match_row [rotated -1])
  qed
  show ?thesis using e1 e2 e3 e4 e5 g by blast
qed

theorem null_wrapper_first_parenthesis_witness:
  "clean_text (py_strip (ascii ''Null(Amoxicilina (500mg))''))
     = ascii ''Null'' @ [] @ [40] @ ascii ''Amoxicilina (500mg'' @ [41] @ ascii '')'' \<and>
   41 \<notin> set (tl (ascii ''Amoxicilina (500mg'')) \<and>
   current_section (parse_rows 1 [[ascii ''Document (1): a''], [ascii ''Medicamentos:'']] init_state) = Some Medicamentos \<and>
   map medicamentos (heap (process_row 3 [ascii ''Null(Amoxicilina (500mg))'']
       (parse_rows 1 [[ascii ''Document (1): a''], [ascii ''Medicamentos:'']] init_state)))
     = [[ascii ''Amoxicilina (500mg'']]"
  using null_wrapper_first_parenthesis
    [where row = "[ascii ''Null(Amoxicilina (500mg))'']" and cell = "ascii ''Null(Amoxicilina (500mg))''"
       and rest = "[]" and s = "parse_rows 1 [[ascii ''Document (1): a''], [ascii ''Medicamentos:'']] init_state"
       and a = 0 and sec = Medicamentos and n = 78 and u = 117 and ?l1.0 = 108 and ?l2.0 = 108
       and ws = "[]" and inner = "ascii ''Amoxicilina (500mg''" and after = "ascii '')''" and k = 3]
  by (simp add: string_eval regex_eval parser_eval marker_cell_def)

section \<open>C5: set difference and length are checked apart\<close>

text \<open>
  C5. For every pair of an original and a decoded document and each of the four list
  fields, the validator records an issue when the two sets of values differ (the missing
  values, the extra values, at least one of the two) and, whether or not they differ, an
  issue when the two lengths differ; a decoded field holding one value twice is a length
  issue although the sets are equal. The issues of the four fields are among the issues of
  the document, and when the artifact decodes to as many documents as there are originals
  the validator returns after the last pair, with every document that has issues in
  \<open>discrepancies\<close>, every issue printed, and the value true exactly when there is none.
\<close>

theorem validator_records_both_issues:
  "(set orig \<noteq> set conv \<longrightarrow>
      (set orig - set conv \<noteq> {} \<longrightarrow> FALTA f (set orig - set conv) \<in> set (field_issues f orig conv)) \<and>
      (set conv - set orig \<noteq> {} \<longrightarrow> EXTRA f (set conv - set orig) \<in> set (field_issues f orig conv)) \<and>
      (\<exists>x. FALTA f x \<in> set (field_issues f orig conv) \<or> EXTRA f x \<in> set (field_issues f orig conv))) \<and>
   (length orig \<noteq> length conv \<longrightarrow> Conteo f (length orig) (length conv) \<in> set (field_issues f orig conv)) \<and>
   field_issues f [x] [x, x] = [Conteo f 1 2] \<and>
   set (field_issues Diagnostico (diagnostico o_doc) (diagnostico c_doc)) \<union>
   set (field_issues Cie10 (cie10 o_doc) (cie10 c_doc)) \<union>
   set (field_issues Medicamentos (medicamentos o_doc) (medicamentos c_doc)) \<union>
   set (field_issues Consultas (consultas o_doc) (consultas c_doc)) \<subseteq> set (check_doc o_doc c_doc) \<and>
   (decode_flat_csv csv = Inr convs \<and> length origs = length convs \<longrightarrow>
      (\<exists>v. validate_run origs csv = Inr v \<and>
           discrepancies v = map (\<lambda>(a, b). (document_id a, check_doc a b))
                               (filter (\<lambda>(a, b). check_doc a b \<noteq> []) (zip origs convs)) \<and>
           (all_valid v \<longleftrightarrow> discrepancies v = []) \<and>
           (\<forall>i < length origs. \<forall>y \<in> set (check_doc (origs ! i) (convs ! i)). Issue y \<in> set (printed v))))"
  using field_issues_sets [of orig conv f] field_issues_length [of orig conv f]
    field_issues_duplicated [of f x] check_doc_fields [of o_doc c_doc]
    validate_run_aggregates [of csv convs origs]
  by simp

theorem validator_records_both_issues_witness:
  "set [ascii ''J18''] = set [ascii ''J18'', ascii ''J18''] \<and>
   length [ascii ''J18''] \<noteq> length [ascii ''J18'', ascii ''J18''] \<and>
   Conteo Cie10 1 2 \<in> set (field_issues Cie10 [ascii ''J18''] [ascii ''J18'', ascii ''J18'']) \<and>
   (\<exists>v. validate_run [(new_doc (ascii ''a.pdf''))\<lparr>cie10 := [ascii ''J18'']\<rparr>]
            (convert_to_flat_csv (ascii ''2024.01.02'')
               [(new_doc (ascii ''a.pdf''))\<lparr>cie10 := [ascii ''J18'', ascii ''J18'']\<rparr>]) = Inr v \<and>
        \<not> all_valid v \<and>
        discrepancies v = [(ascii ''a.pdf'', [Conteo Cie10 1 2])])"
  using validator_records_both_issues
    [of "[ascii ''J18'']" "[ascii ''J18'', ascii ''J18'']" Cie10 "ascii ''J18''"
        "(new_doc (ascii ''a.pdf''))\<lparr>cie10 := [ascii ''J18'']\<rparr>"
        "\<lparr>document_id = ascii ''a.pdf'', diagnostico = [], cie10 = [ascii ''J18'', ascii ''J18''],
           destino_alta = [], medicamentos = [], consultas = []\<rparr>"
        "convert_to_flat_csv (ascii ''2024.01.02'')
               [(new_doc (ascii ''a.pdf''))\<lparr>cie10 := [ascii ''J18'', ascii ''J18'']\<rparr>]"
        "[\<lparr>document_id = ascii ''a.pdf'', diagnostico = [], cie10 = [ascii ''J18'', ascii ''J18''],
           destino_alta = [], medicamentos = [], consultas = []\<rparr>]"
        "[(new_doc (ascii ''a.pdf''))\<lparr>cie10 := [ascii ''J18'']\<rparr>]"]
    scenario_E_decode
  by (auto simp: new_doc_def field_issues_def check_doc_def)

section \<open>C10: the header is bare, the fields of the documents are quoted\<close>

text \<open>
  C10. The artifact is the header line followed by one line for each document. The header
  is the seven column names separated by commas, with no quote in it, and it is what stands
  before the first line feed of the artifact. The line of a document is its seven values,
  each one between double quotes whatever it holds, with every double quote inside written
  twice (so that replacing each doubled quote by one gives the value back), separated by
  commas. A decoder therefore meets unquoted fields in the header only.
\<close>

theorem header_bare_fields_quoted:
  "convert_to_flat_csv version docs = header @ concat (map (\<lambda>d. csv_row version d @ [newline]) docs) \<and>
   header = ascii ''document_id,diagnostico,cie10,destino_alta,medicamentos,consultas,version'' @ [newline] \<and>
   dquote \<notin> set header \<and>
   hd (split_on newline [] (convert_to_flat_csv version docs))
     = ascii ''document_id,diagnostico,cie10,destino_alta,medicamentos,consultas,version'' \<and>
   csv_row version d =
     csv_quote (document_id d) @ ascii '','' @ csv_quote (json_dumps (diagnostico d)) @ ascii '','' @
     csv_quote (json_dumps (cie10 d)) @ ascii '','' @ csv_quote (destino_alta d) @ ascii '','' @
     csv_quote (json_dumps (medicamentos d)) @ ascii '','' @ csv_quote (json_dumps (consultas d)) @ ascii '','' @
     csv_quote version \<and>
   (\<exists>body. csv_quote x = [dquote] @ body @ [dquote] \<and> replace_doubled body = x \<and>
           length (filter (\<lambda>c. c = dquote) body) = 2 * length (filter (\<lambda>c. c = dquote) x))"
proof -
  define names where "names = ascii ''document_id,diagnostico,cie10,destino_alta,medicamentos,consultas,version''"
  define rest where "rest = concat (map (\<lambda>d. csv_row version d @ [newline]) docs)"
  have h: "header = names @ [newline]" by (simp add: header_def names_def)
  have n: "newline \<notin> set names" by (simp add: names_def newline_def)
  have q: "dquote \<notin> set header" by (simp add: header_def dquote_def newline_def)
  have 1: "convert_to_flat_csv version docs = header @ rest"
    by (simp add: convert_to_flat_csv_def output_lines_def rest_def)
  have "split_on newline [] (names @ newline # rest) = ([] @ names) # split_on newline [] rest"
    using n by (rule split_on_first)
  then have 2: "hd (split_on newline [] (convert_to_flat_csv version docs)) = names"
    unfolding 1 h by simp
  have 3: "csv_row version d =
     csv_quote (document_id d) @ ascii '','' @ csv_quote (json_dumps (diagnostico d)) @ ascii '','' @
     csv_quote (json_dumps (cie10 d)) @ ascii '','' @ csv_quote (destino_alta d) @ ascii '','' @
     csv_quote (json_dumps (medicamentos d)) @ ascii '','' @ csv_quote (json_dumps (consultas d)) @ ascii '','' @
     csv_quote version"
    by (simp add: csv_row_def row_values_def)
  have 4: "length (filter (\<lambda>c. c = dquote) (concat (map (\<lambda>c. if c = dquote then [dquote, dquote] else [c]) x)))
      = 2 * length (filter (\<lambda>c. c = dquote) x)"
    by (induction x) simp_all
  have 5: "\<exists>body. csv_quote x = [dquote] @ body @ [dquote] \<and> replace_doubled body = x \<and>
           length (filter (\<lambda>c. c = dquote) body) = 2 * length (filter (\<lambda>c. c = dquote) x)"
    unfolding csv_quote_def using replace_doubled_inverse [of x] 4 by blast
  show ?thesis
    apply (intro conjI)
         apply (simp only: 1 rest_def)
        apply (simp only: h names_def)
       apply (rule q)
      apply (simp only: 2 names_def)
     apply (rule 3)
    apply (rule 5)
    done
qed

section \<open>C1: what an accepted artifact decodes to\<close>

text \<open>
  C1. For every input for which the validator returns true on the parsed documents and
  their encoded artifact, the artifact decodes, to as many documents as were parsed, and at
  every position the decoded document has the \<open>document_id\<close> and the \<open>destino_alta\<close> of
  the parsed one and, in each of the four list fields, the same set of values and the same
  length.
\<close>

theorem accepted_round_trip:
  assumes "validate_conversion (parse_hierarchical_csv rows)
             (convert_to_flat_csv version (parse_hierarchical_csv rows)) = Inr True"
  shows "\<exists>decoded.
           decode_flat_csv (convert_to_flat_csv version (parse_hierarchical_csv rows)) = Inr decoded \<and>
           length decoded = length (parse_hierarchical_csv rows) \<and>
           (\<forall>i < length (parse_hierarchical_csv rows).
              document_id (decoded ! i) = document_id (parse_hierarchical_csv rows ! i) \<and>
              destino_alta (decoded ! i) = destino_alta (parse_hierarchical_csv rows ! i) \<and>
              set (diagnostico (decoded ! i)) = set (diagnostico (parse_hierarchical_csv rows ! i)) \<and>
              length (diagnostico (decoded ! i)) = length (diagnostico (parse_hierarchical_csv rows ! i)) \<and>
              set (cie10 (decoded ! i)) = set (cie10 (parse_hierarchical_csv rows ! i)) \<and>
              length (cie10 (decoded ! i)) = length (cie10 (parse_hierarchical_csv rows ! i)) \<and>
              set (medicamentos (decoded ! i)) = set (medicamentos (parse_hierarchical_csv rows ! i)) \<and>
              length (medicamentos (decoded ! i)) = length (medicamentos (parse_hierarchical_csv rows ! i)) \<and>
              set (consultas (decoded ! i)) = set (consultas (parse_hierarchical_csv rows ! i)) \<and>
              length (consultas (decoded ! i)) = length (consultas (parse_hierarchical_csv rows ! i)))"
proof -
  from validate_conversion_true [OF assms]
  obtain conv where c: "decode_flat_csv (convert_to_flat_csv version (parse_hierarchical_csv rows)) = Inr conv"
    and l: "length conv = length (parse_hierarchical_csv rows)"
    and e: "\<forall>i < length (parse_hierarchical_csv rows). check_doc (parse_hierarchical_csv rows ! i) (conv ! i) = []"
    by blast
  show ?thesis
    apply (rule exI [of _ conv])
    using c l e unfolding check_doc_empty by simp
qed

theorem accepted_round_trip_witness:
  "validate_conversion
     (parse_hierarchical_csv
        [[ascii ''Document (1): informe.pdf''], [ascii ''CIE-10:''], [ascii ''J18.9''],
         [ascii ''Destino al alta:''], [ascii ''Domicilio'']])
     (convert_to_flat_csv (ascii ''2024.01.02'')
        (parse_hierarchical_csv
           [[ascii ''Document (1): informe.pdf''], [ascii ''CIE-10:''], [ascii ''J18.9''],
            [ascii ''Destino al alta:''], [ascii ''Domicilio'']])) = Inr True \<and>
   (\<exists>decoded.
      decode_flat_csv (convert_to_flat_csv (ascii ''2024.01.02'')
        (parse_hierarchical_csv
           [[ascii ''Document (1): informe.pdf''], [ascii ''CIE-10:''], [ascii ''J18.9''],
            [ascii ''Destino al alta:''], [ascii ''Domicilio'']])) = Inr decoded \<and>
      map document_id decoded = [ascii ''informe.pdf''] \<and>
      map cie10 decoded = [[ascii ''J18.9'']] \<and>
      map destino_alta decoded = [ascii ''Domicilio''])"
  using accepted_round_trip
    [of "[[ascii ''Document (1): informe.pdf''], [ascii ''CIE-10:''], [ascii ''J18.9''],
          [ascii ''Destino al alta:''], [ascii ''Domicilio'']]" "ascii ''2024.01.02''", OF sample_valid]
    sample_valid
  unfolding sample_parsed sample_decoded by simp

section \<open>C2: a rejected conversion is not saved\<close>

text \<open>
  C2. Whenever the validator returns false on the parsed documents and their encoded
  artifact, the run writes no file: neither the flat CSV, nor the debug JSON, nor the
  pointer. All it has done to the file system is to create the output directory, which
  line 328 does before the input is read. The validator is reached when the input exists
  and documents were parsed; the run then raises nothing and prints, after what the three
  steps print, the message that the conversion is blocked, and stops there; every issue of
  every document in \<open>discrepancies\<close> has been printed.
\<close>

theorem rejected_run_writes_nothing:
  assumes "validate_conversion (parse_hierarchical_csv rows)
             (convert_to_flat_csv version_convert (parse_hierarchical_csv rows)) = Inr False"
  shows "effects (main input_exists rows version_convert version) = [Mkdir OUTPUT_DIR] \<and>
         (\<forall>p c. Write p c \<notin> set (effects (main input_exists rows version_convert version))) \<and>
         (parse_hierarchical_csv rows \<noteq> [] \<longrightarrow>
            (\<exists>v. validate_run (parse_hierarchical_csv rows)
                    (convert_to_flat_csv version_convert (parse_hierarchical_csv rows)) = Inr v \<and>
                 \<not> all_valid v \<and>
                 raised (main True rows version_convert version) = None \<and>
                 console (main True rows version_convert version) =
                   [Titulo, Rutas] @ parse_printed rows @
                   convert_printed version_convert (parse_hierarchical_csv rows) @ printed v @ [Bloqueado] \<and>
                 (\<forall>(i, xs) \<in> set (discrepancies v). \<forall>x \<in> set xs.
                    Issue x \<in> set (console (main True rows version_convert version)))))"
proof -
  obtain v where v: "validate_run (parse_hierarchical_csv rows)
      (convert_to_flat_csv version_convert (parse_hierarchical_csv rows)) = Inr v" and a: "\<not> all_valid v"
    using assms unfolding validate_conversion_run by auto
  have e: "effects (main input_exists rows version_convert version) = [Mkdir OUTPUT_DIR]"
    unfolding main_effects using assms by simp
  have p: "\<forall>(i, xs) \<in> set (discrepancies v). \<forall>x \<in> set xs. Issue x \<in> set (printed v)"
    using validate_run_printed [OF v] by auto
  show ?thesis
  proof (intro conjI impI)
    show "effects (main input_exists rows version_convert version) = [Mkdir OUTPUT_DIR]" by (rule e)
    show "\<forall>p c. Write p c \<notin> set (effects (main input_exists rows version_convert version))"
      unfolding e by simp
    assume n: "parse_hierarchical_csv rows \<noteq> []"
    show "\<exists>v. validate_run (parse_hierarchical_csv rows)
                    (convert_to_flat_csv version_convert (parse_hierarchical_csv rows)) = Inr v \<and>
                 \<not> all_valid v \<and>
                 raised (main True rows version_convert version) = None \<and>
                 console (main True rows version_convert version) =
                   [Titulo, Rutas] @ parse_printed rows @
                   convert_printed version_convert (parse_hierarchical_csv rows) @ printed v @ [Bloqueado] \<and>
                 (\<forall>(i, xs) \<in> set (discrepancies v). \<forall>x \<in> set xs.
                    Issue x \<in> set (console (main True rows version_convert version)))"
      apply (rule exI [of _ v])
      unfolding main_not_valid [OF v a n] using v a p by auto
  qed
qed

theorem rejected_run_writes_nothing_witness:
  "validate_conversion (parse_hierarchical_csv [[ascii ''Document (1): a'' @ [34, 39, 34, 39]]])
     (convert_to_flat_csv (ascii ''2024.01.02'')
        (parse_hierarchical_csv [[ascii ''Document (1): a'' @ [34, 39, 34, 39]]])) = Inr False \<and>
   effects (main True [[ascii ''Document (1): a'' @ [34, 39, 34, 39]]] (ascii ''2024.01.02'') (ascii ''2024.01.03''))
     = [Mkdir OUTPUT_DIR] \<and>
   Issue (Document_ID [97, 34] [97])
     \<in> set (console (main True [[ascii ''Document (1): a'' @ [34, 39, 34, 39]]] (ascii ''2024.01.02'') (ascii ''2024.01.03''))) \<and>
   last (console (main True [[ascii ''Document (1): a'' @ [34, 39, 34, 39]]] (ascii ''2024.01.02'') (ascii ''2024.01.03'')))
     = Bloqueado"
proof -
  have f: "validate_conversion (parse_hierarchical_csv [[ascii ''Document (1): a'' @ [34, 39, 34, 39]]])
     (convert_to_flat_csv (ascii ''2024.01.02'')
        (parse_hierarchical_csv [[ascii ''Document (1): a'' @ [34, 39, 34, 39]]])) = Inr False"
    unfolding rejected_parsed validate_conversion_def rejected_run by (simp add: bind_err_def)
  have n: "parse_hierarchical_csv [[ascii ''Document (1): a'' @ [34, 39, 34, 39]]] \<noteq> []"
    unfolding rejected_parsed by simp
  from rejected_run_writes_nothing [OF f, of True "ascii ''2024.01.03''"] n f
  show ?thesis
    unfolding rejected_parsed rejected_run by auto
qed

end
